theory Spec2Isabelle
  imports Complex_Main "HOL-Library.Word"
begin

section \<open>Python and numpy values\<close>

text \<open>
  A Python \<open>str\<close> is a sequence of Unicode code points, and \<open>len\<close> counts code points,
  so a string is modelled as a list of code point numbers. \<open>py\<close> turns an ASCII literal
  into such a string.
\<close>

type_synonym pystr = "nat list"

definition py :: "string \<Rightarrow> pystr" where
  "py s = map of_char s"

text \<open>
  A \<open>float32\<close> value is a finite number, given by the real number it denotes, one of the
  two infinities, or NaN. The two zeros are not told apart: they compare equal, have the
  same absolute value and the same integer cast, and the code never divides by one.
\<close>

datatype f32 = Finite real | PosInf | NegInf | NaN

type_synonym sample = f32

text \<open>
  What the code takes from its platform: the Unicode character database behind
  \<open>str.isprintable\<close> for the code points above ASCII, the rounding of a real result to
  \<open>float32\<close> that numpy applies after each arithmetic operation, and the value that the
  cast to a 16-bit integer gives for NaN, an infinity or a number outside the 32-bit
  range (C leaves it open; it is \<open>0\<close> on x86-64).
\<close>

record platform =
  unicode_printable :: "nat \<Rightarrow> bool"
  float32 :: "real \<Rightarrow> real"
  int16_invalid :: "16 word"

text \<open>
  Arithmetic on \<open>float32\<close>, as far as \<open>save_key_audio\<close> uses it. A real result is rounded,
  and becomes an infinity when the rounded value is beyond the largest \<open>float32\<close>.
  \<open>np.abs\<close>, \<open>np.maximum\<close> and the comparison with \<open>0\<close> are exact; NaN propagates through
  all operations and compares false.
\<close>

definition max_float32 :: real where
  "max_float32 = (2 ^ 24 - 1) * 2 ^ 104"

definition f32_of :: "platform \<Rightarrow> real \<Rightarrow> f32" where
  "f32_of p r =
     (let y = float32 p r
      in if y > max_float32 then PosInf else if y < - max_float32 then NegInf else Finite y)"

fun f32_abs :: "f32 \<Rightarrow> f32" where
  "f32_abs (Finite r) = Finite \<bar>r\<bar>"
| "f32_abs PosInf = PosInf"
| "f32_abs NegInf = PosInf"
| "f32_abs NaN = NaN"

fun f32_max :: "f32 \<Rightarrow> f32 \<Rightarrow> f32" where
  "f32_max NaN y = NaN"
| "f32_max x NaN = NaN"
| "f32_max PosInf y = PosInf"
| "f32_max x PosInf = PosInf"
| "f32_max NegInf y = y"
| "f32_max x NegInf = x"
| "f32_max (Finite a) (Finite b) = Finite (max a b)"

fun f32_positive :: "f32 \<Rightarrow> bool" where
  "f32_positive (Finite r) = (r > 0)"
| "f32_positive PosInf = True"
| "f32_positive NegInf = False"
| "f32_positive NaN = False"

fun f32_div :: "platform \<Rightarrow> f32 \<Rightarrow> f32 \<Rightarrow> f32" where
  "f32_div p NaN y = NaN"
| "f32_div p x NaN = NaN"
| "f32_div p (Finite a) (Finite b) =
     (if b = 0 then (if a = 0 then NaN else if a > 0 then PosInf else NegInf)
      else f32_of p (a / b))"
| "f32_div p (Finite a) PosInf = Finite 0"
| "f32_div p (Finite a) NegInf = Finite 0"
| "f32_div p PosInf (Finite b) = (if b \<ge> 0 then PosInf else NegInf)"
| "f32_div p NegInf (Finite b) = (if b \<ge> 0 then NegInf else PosInf)"
| "f32_div p PosInf PosInf = NaN"
| "f32_div p PosInf NegInf = NaN"
| "f32_div p NegInf PosInf = NaN"
| "f32_div p NegInf NegInf = NaN"

fun f32_mul :: "platform \<Rightarrow> f32 \<Rightarrow> real \<Rightarrow> f32" where
  \<comment> \<open>the product with a finite number\<close>
  "f32_mul p NaN c = NaN"
| "f32_mul p (Finite a) c = f32_of p (a * c)"
| "f32_mul p PosInf c = (if c > 0 then PosInf else if c < 0 then NegInf else NaN)"
| "f32_mul p NegInf c = (if c > 0 then NegInf else if c < 0 then PosInf else NaN)"

fun is_finite :: "f32 \<Rightarrow> bool" where
  "is_finite (Finite r) = True"
| "is_finite x = False"

fun finite_value :: "f32 \<Rightarrow> real" where
  \<comment> \<open>the number a finite value denotes\<close>
  "finite_value (Finite r) = r"
| "finite_value x = 0"

fun dec :: "nat \<Rightarrow> pystr" where
  "dec n = (if n < 10 then [48 + n] else dec (n div 10) @ [48 + n mod 10])"

declare dec.simps [simp del]

datatype error = ValueError pystr | TypeError pystr | OSError pystr

definition np_zeros :: "nat \<Rightarrow> sample list" where
  "np_zeros n = replicate n (Finite 0)"

text \<open>
  \<open>np.roll(a, shift)\<close> on a one-dimensional array returns a new array of the same length
  in which the element at index \<open>i\<close> of \<open>a\<close> sits at index \<open>(i + shift) mod len(a)\<close>.
\<close>

definition np_roll :: "sample list \<Rightarrow> int \<Rightarrow> sample list" where
  "np_roll a shift =
     (if a = [] then []
      else let m = nat ((- shift) mod int (length a)) in drop m a @ take m a)"

definition broadcast_error :: "nat \<Rightarrow> nat \<Rightarrow> error" where
  "broadcast_error k n =
     ValueError (py ''could not broadcast input array from shape ('' @ dec k @
                 py '',) into shape ('' @ dec n @ py '',)'')"

text \<open>
  \<open>a[-frames:] = v\<close>: the slice starts at \<open>max(len(a) - frames, 0)\<close>, and at \<open>0\<close> when
  \<open>frames\<close> is \<open>0\<close> (\<open>-0\<close> is \<open>0\<close>); \<open>v\<close> must have the length of the slice or length
  one (it is then broadcast), else numpy raises \<open>ValueError\<close>.
\<close>

definition assign_tail :: "sample list \<Rightarrow> nat \<Rightarrow> sample list \<Rightarrow> error + sample list" where
  "assign_tail a frames v =
     (let start = (if frames = 0 then 0 else length a - frames);
          n = length a - start
      in if length v = n then Inr (take start a @ v)
         else if length v = 1 then Inr (take start a @ replicate n (hd v))
         else Inl (broadcast_error (length v) n))"

text \<open>\<open>a[-n:]\<close> as a value: the last \<open>n\<close> elements, all of \<open>a\<close> when \<open>n\<close> is \<open>0\<close>.\<close>

definition slice_last :: "'a list \<Rightarrow> nat \<Rightarrow> 'a list" where
  "slice_last a n = (if n = 0 then a else drop (length a - n) a)"

section \<open>The application state\<close>

datatype wav =
    Wav (nchannels: nat) (sampwidth: nat) (framerate: nat) (pcm: "16 word list")
  | Incomplete

record metadata_row =
  row_timestamp :: pystr
  row_key :: pystr
  row_wav_file :: pystr

text \<open>
  The fields of \<open>ResearchApp\<close> that the recording paths read or write, together with the
  part of the file system they write to: the files by path, and the rows of
  \<open>metadata.csv\<close> below its header.
\<close>

record app =
  is_recording :: bool
  recording_duration :: int
  remaining_time :: int
  timer_running :: bool
  status_label :: pystr
  fs :: nat
  buffer_samples :: nat
  segment_samples :: nat
  audio_buffer :: "sample list"
  input_device :: "nat option"
  output_dir :: pystr
  files :: "pystr \<rightharpoonup> wav"
  metadata_rows :: "metadata_row list"

text \<open>
  \<open>__init__\<close>: the input device is the first one whose \<open>max_input_channels\<close> is positive,
  \<open>None\<close> when there is none or when the query raises. \<open>int(44100 * 2.0)\<close> is \<open>88200\<close>
  and \<open>int(44100 * 0.2)\<close> is \<open>8820\<close>.
\<close>

definition select_input_device :: "error + int list \<Rightarrow> nat option" where
  "select_input_device devices =
     (case devices of
        Inl e \<Rightarrow> None
      | Inr ds \<Rightarrow>
          (case filter (\<lambda>i. ds ! i > 0) [0 ..< length ds] of
             [] \<Rightarrow> None
           | i # _ \<Rightarrow> Some i))"

definition init_app :: "error + int list \<Rightarrow> (pystr \<rightharpoonup> wav) \<Rightarrow> metadata_row list \<Rightarrow> app" where
  "init_app devices disk rows =
     \<lparr> is_recording = False,
       recording_duration = 60,
       remaining_time = 0,
       timer_running = False,
       status_label = py ''Status: Idle'',
       fs = 44100,
       buffer_samples = 88200,
       segment_samples = 8820,
       audio_buffer = np_zeros 88200,
       input_device = select_input_device devices,
       output_dir = py ''recordings'',
       files = disk,
       metadata_rows = rows \<rparr>"

section \<open>The audio callback\<close>

text \<open>
  \<open>callback(indata, frames, time_info, status)\<close> of \<open>record_audio\<close>. \<open>indata\<close> is the block's
  channel \<open>0\<close> column, \<open>indata[:, 0]\<close> (the stream has one channel). The result is the
  exception the call raised, if any, and the state it left: the rolled array is stored
  in \<open>self.audio_buffer\<close> before the slice assignment can raise.
\<close>

definition callback :: "app \<Rightarrow> sample list \<Rightarrow> nat \<Rightarrow> error option \<times> app" where
  "callback s indata frames =
     (if \<not> is_recording s then (None, s)
      else let rolled = np_roll (audio_buffer s) (- int frames) in
        (case assign_tail rolled frames indata of
           Inl e \<Rightarrow> (Some e, s\<lparr>audio_buffer := rolled\<rparr>)
         | Inr a \<Rightarrow> (None, s\<lparr>audio_buffer := a\<rparr>)))"

text \<open>
  The stream invokes the callback once per block, with \<open>frames\<close> the number of rows of
  \<open>indata\<close>. \<open>callbacks\<close> is the state after the blocks of a list were delivered in order;
  a call that raises leaves the state it reached, and the next block is delivered to it.
\<close>

fun callbacks :: "app \<Rightarrow> sample list list \<Rightarrow> app" where
  "callbacks s [] = s"
| "callbacks s (indata # rest) = callbacks (snd (callback s indata (length indata))) rest"

text \<open>The slice read by \<open>save_key_audio\<close>, \<open>self.audio_buffer[-n:]\<close>.\<close>

definition snapshot_last :: "app \<Rightarrow> nat \<Rightarrow> sample list" where
  "snapshot_last s n = slice_last (audio_buffer s) n"


section \<open>Starting and stopping\<close>

definition start_recording :: "app \<Rightarrow> int option \<Rightarrow> app" where
  \<comment> \<open>The argument is \<open>int(...)\<close> of the duration typed in, \<open>None\<close> when it raises.\<close>
  "start_recording s duration =
     (case duration of
        None \<Rightarrow> s
      | Some d \<Rightarrow>
          if d \<le> 0 then s
          else s\<lparr>recording_duration := d, remaining_time := d, is_recording := True,
                 timer_running := True, status_label := py ''Status: Recording...''\<rparr>)"

definition stop_recording :: "app \<Rightarrow> app" where
  "stop_recording s =
     s\<lparr>is_recording := False, timer_running := False, status_label := py ''Status: Idle''\<rparr>"

definition countdown_timer :: "app \<Rightarrow> app" where
  "countdown_timer s =
     (if \<not> is_recording s \<or> \<not> timer_running s then s
      else if remaining_time s > 0 then s\<lparr>remaining_time := remaining_time s - 1\<rparr>
      else stop_recording s)"

fun exc_str :: "error \<Rightarrow> pystr" where
  "exc_str (ValueError m) = m"
| "exc_str (TypeError m) = m"
| "exc_str (OSError m) = m"

text \<open>
  \<open>record_audio\<close> up to the point where the stream is open. \<open>stream_error\<close> is the
  exception raised by \<open>sd.InputStream\<close>, if any. The status text is set through
  \<open>root.after(0, ...)\<close>; the model sets it at once.
\<close>

definition record_audio :: "app \<Rightarrow> error option \<Rightarrow> app" where
  "record_audio s stream_error =
     (if input_device s = None
      then s\<lparr>status_label := py ''Audio error: No valid input device found''\<rparr>
      else (case stream_error of
              None \<Rightarrow> s
            | Some e \<Rightarrow> s\<lparr>status_label := py ''Audio error: '' @ exc_str e\<rparr>))"

section \<open>Key presses\<close>

text \<open>
  A key delivered by the listener is a \<open>KeyCode\<close>, with the fields \<open>vk\<close>, \<open>char\<close> and
  \<open>is_dead\<close>, or a member of the \<open>Key\<close> enumeration, which has no \<open>char\<close> attribute and
  whose \<open>str\<close> is \<open>Key.\<close> followed by the member's name, or \<open>None\<close> for a key the
  listener does not know. \<open>str_key\<close> is \<open>str(key)\<close>: for a \<open>KeyCode\<close>, the bracketed
  \<open>repr\<close> of \<open>char\<close> when the key is dead, else the \<open>repr\<close> of \<open>char\<close> when there is one,
  else \<open>vk\<close> between angle brackets, formatted with \<open>%d\<close>.
\<close>

datatype key =
    KeyCode (vk: "nat option") (char: "pystr option") (is_dead: bool)
  | Key pystr
  | NoKey

definition repr_str :: "pystr \<Rightarrow> pystr" where
  \<comment> \<open>\<open>repr\<close> of a string with no quote, backslash or unprintable character\<close>
  "repr_str t = [39] @ t @ [39]"

fun str_key :: "key \<Rightarrow> error + pystr" where
  "str_key (Key name) = Inr (py ''Key.'' @ name)"
| "str_key NoKey = Inr (py ''None'')"
| "str_key (KeyCode v c dead) =
     (if dead then
        Inr (py ''['' @ (case c of None \<Rightarrow> py ''None'' | Some t \<Rightarrow> repr_str t) @ py '']'')
      else (case c of
              Some t \<Rightarrow> Inr (repr_str t)
            | None \<Rightarrow>
                (case v of
                   Some n \<Rightarrow> Inr (py ''<'' @ dec n @ py ''>'')
                 | None \<Rightarrow> Inl (TypeError (py ''%d format: a real number is required, not NoneType'')))))"

text \<open>
  The label \<open>k\<close> computed at the head of \<open>on_press\<close>: \<open>key.char\<close> when the key has a
  non-empty one, else \<open>str(key)\<close>. When \<open>str(key)\<close> raises, the handler's \<open>except\<close> calls it
  again and the exception leaves \<open>on_press\<close>.
\<close>

fun press_label :: "key \<Rightarrow> error + pystr" where
  "press_label (KeyCode v (Some t) dead) =
     (if t \<noteq> [] then Inr t else str_key (KeyCode v (Some t) dead))"
| "press_label k = str_key k"

definition cp_printable :: "platform \<Rightarrow> nat \<Rightarrow> bool" where
  "cp_printable p c = (if c < 128 then 32 \<le> c \<and> c < 127 else unicode_printable p c)"

definition isprintable :: "platform \<Rightarrow> pystr \<Rightarrow> bool" where
  "isprintable p k = list_all (cp_printable p) k"

definition accepted :: "platform \<Rightarrow> pystr \<Rightarrow> bool" where
  "accepted p k =
     ((isprintable p k \<and> length k = 1) \<or>
      k \<in> set [py ''Key.space'', py ''Key.enter'', py ''Key.backspace''])"

section \<open>Saving a clip\<close>

record datetime =
  year :: nat
  month :: nat
  day :: nat
  hour :: nat
  minute :: nat
  second :: nat
  microsecond :: nat

definition zpad :: "nat \<Rightarrow> nat \<Rightarrow> pystr" where
  \<comment> \<open>decimal, zero-padded to a width\<close>
  "zpad w n = replicate (w - length (dec n)) 48 @ dec n"

definition strftime :: "datetime \<Rightarrow> pystr" where
  \<comment> \<open>\<open>strftime("%Y%m%d_%H%M%S_%f")\<close>\<close>
  "strftime d =
     zpad 4 (year d) @ zpad 2 (month d) @ zpad 2 (day d) @ py ''_'' @
     zpad 2 (hour d) @ zpad 2 (minute d) @ zpad 2 (second d) @ py ''_'' @
     zpad 6 (microsecond d)"

definition os_path_join :: "pystr \<Rightarrow> pystr \<Rightarrow> pystr" where
  \<comment> \<open>\<open>posixpath.join\<close> of two components\<close>
  "os_path_join a b =
     (if b \<noteq> [] \<and> hd b = 47 then b
      else if a = [] \<or> last a = 47 then a @ b
      else a @ py ''/'' @ b)"

fun np_max :: "f32 list \<Rightarrow> error + f32" where
  "np_max [] =
     Inl (ValueError (py ''zero-size array to reduction operation maximum which has no identity''))"
| "np_max (x # xs) = Inr (fold f32_max xs x)"

definition trunc :: "real \<Rightarrow> int" where
  \<comment> \<open>rounding towards zero\<close>
  "trunc x = (if 0 \<le> x then \<lfloor>x\<rfloor> else \<lceil>x\<rceil>)"

text \<open>
  \<open>np.int16\<close> of a \<open>float32\<close>: the cast truncates towards zero and keeps the low 16 bits
  of the 32-bit result, so a number outside the 16-bit range wraps; NaN, the infinities
  and the numbers outside the 32-bit range give the platform's value.
\<close>

fun np_int16 :: "platform \<Rightarrow> f32 \<Rightarrow> 16 word" where
  "np_int16 p (Finite x) =
     (if - (2 ^ 31) \<le> trunc x \<and> trunc x < 2 ^ 31 then word_of_int (trunc x)
      else int16_invalid p)"
| "np_int16 p x = int16_invalid p"

declare np_int16.simps [simp del]

text \<open>
  The normalisation of \<open>save_key_audio\<close>:
  \<open>np.int16(segment / np.max(np.abs(segment)) * 32767)\<close> when the peak is positive, with
  the quotient and the product each rounded to \<open>float32\<close>, else \<open>np.int16(segment)\<close>.
\<close>

definition normalize_int16 :: "platform \<Rightarrow> sample list \<Rightarrow> error + 16 word list" where
  "normalize_int16 p segment =
     (case np_max (map f32_abs segment) of
        Inl e \<Rightarrow> Inl e
      | Inr peak \<Rightarrow>
          if f32_positive peak
          then Inr (map (\<lambda>x. np_int16 p (f32_mul p (f32_div p x peak) 32767)) segment)
          else Inr (map (np_int16 p) segment))"

text \<open>
  What the file system does to one call of \<open>save_key_audio\<close>: nothing, or an exception
  from \<open>wave.open\<close> (no file is created), from writing or closing the wave file (the file
  is left incomplete), or from opening or appending to the metadata file.
\<close>

datatype io = IoOk | WaveOpenFails error | WaveWriteFails error | CsvAppendFails error

definition save_error :: "app \<Rightarrow> error \<Rightarrow> app" where
  "save_error s e = s\<lparr>status_label := py ''Save error: '' @ exc_str e\<rparr>"

definition wav_name :: "pystr \<Rightarrow> pystr \<Rightarrow> pystr" where
  \<comment> \<open>\<open>f"{key_label}_{timestamp}.wav"\<close>\<close>
  "wav_name key_label timestamp = key_label @ py ''_'' @ timestamp @ py ''.wav''"

definition save_key_audio :: "platform \<Rightarrow> app \<Rightarrow> pystr \<Rightarrow> datetime \<Rightarrow> io \<Rightarrow> app" where
  "save_key_audio p s key_label now fault =
     (let timestamp = strftime now;
          wav_filename = wav_name key_label timestamp;
          wav_path = os_path_join (output_dir s) wav_filename;
          segment = slice_last (audio_buffer s) (segment_samples s)
      in case normalize_int16 p segment of
           Inl e \<Rightarrow> save_error s e
         | Inr segment_int16 \<Rightarrow>
             (case fault of
                WaveOpenFails e \<Rightarrow> save_error s e
              | WaveWriteFails e \<Rightarrow>
                  save_error (s\<lparr>files := (files s)(wav_path \<mapsto> Incomplete)\<rparr>) e
              | CsvAppendFails e \<Rightarrow>
                  save_error
                    (s\<lparr>files := (files s)(wav_path \<mapsto> Wav 1 2 (fs s) segment_int16)\<rparr>) e
              | IoOk \<Rightarrow>
                  s\<lparr>files := (files s)(wav_path \<mapsto> Wav 1 2 (fs s) segment_int16),
                    metadata_rows := metadata_rows s @
                      [\<lparr>row_timestamp = timestamp, row_key = key_label,
                        row_wav_file = wav_filename\<rparr>]\<rparr>))"

text \<open>
  \<open>on_press\<close>, with the clock reading and the file system's behaviour of the save it may
  trigger. \<open>key_events\<close> lists the labels it passes to \<open>save_key_audio\<close>.
\<close>

definition key_events :: "platform \<Rightarrow> app \<Rightarrow> key \<Rightarrow> pystr list" where
  "key_events p s key =
     (if \<not> is_recording s then []
      else (case press_label key of
              Inl e \<Rightarrow> []
            | Inr k \<Rightarrow> if accepted p k then [k] else []))"

definition on_press :: "platform \<Rightarrow> app \<Rightarrow> key \<Rightarrow> datetime \<Rightarrow> io \<Rightarrow> error option \<times> app" where
  "on_press p s key now fault =
     (if \<not> is_recording s then (None, s)
      else (case press_label key of
              Inl e \<Rightarrow> (Some e, s)
            | Inr k \<Rightarrow>
                if accepted p k then (None, save_key_audio p s k now fault) else (None, s)))"

section \<open>Sessions\<close>

text \<open>
  The main loop, the audio thread and the keyboard thread act on the application one
  step at a time; a session is the list of these steps in the order they took effect.
\<close>

datatype event =
    Start "int option"
  | AudioThread "error option"
  | Block "sample list"
  | Press key datetime io
  | Countdown
  | Stop

fun step :: "platform \<Rightarrow> app \<Rightarrow> event \<Rightarrow> app" where
  "step p s (Start d) = start_recording s d"
| "step p s (AudioThread e) = record_audio s e"
| "step p s (Block indata) = snd (callback s indata (length indata))"
| "step p s (Press k now fault) = snd (on_press p s k now fault)"
| "step p s Countdown = countdown_timer s"
| "step p s Stop = stop_recording s"

definition run :: "platform \<Rightarrow> app \<Rightarrow> event list \<Rightarrow> app" where
  "run p s es = foldl (step p) s es"

section \<open>Observations on the buffer\<close>

text \<open>
  The number of positions of the stored array whose value differs between two states,
  and a test signal of \<open>2 * n\<close> samples in which neighbours differ, with the same signal
  one sample later.
\<close>

definition moved_positions :: "sample list \<Rightarrow> sample list \<Rightarrow> nat" where
  "moved_positions old new = length (filter (\<lambda>(x, y). x \<noteq> y) (zip old new))"

definition alternating :: "nat \<Rightarrow> sample list" where
  "alternating n = concat (replicate n [Finite 1, Finite (- 1)])"

definition shifted :: "nat \<Rightarrow> sample list" where
  "shifted n = concat (replicate n [Finite (- 1), Finite 1])"

section \<open>Assumptions on the platform\<close>

text \<open>
  What the proofs use of the rounding to \<open>float32\<close>: it is monotone, and it leaves
  \<open>1\<close>, \<open>-1\<close>, \<open>32767\<close> and \<open>-32767\<close>, which are \<open>float32\<close> values, as they are.
  Round-to-nearest has both properties; so has exact arithmetic, the platform \<open>exact\<close>,
  whose cast gives \<open>0\<close> where C leaves it open.
\<close>

definition monotone_exact :: "(real \<Rightarrow> real) \<Rightarrow> bool" where
  "monotone_exact r =
     ((\<forall>x y. x \<le> y \<longrightarrow> r x \<le> r y) \<and>
      r 1 = 1 \<and> r (- 1) = - 1 \<and> r 32767 = 32767 \<and> r (- 32767) = - 32767)"

definition exact :: platform where
  "exact = \<lparr>unicode_printable = (\<lambda>c. False), float32 = (\<lambda>x. x), int16_invalid = 0\<rparr>"

section \<open>Classes of keys\<close>

text \<open>
  The classes of keys, read off the key itself. A key decodes to exactly one printable
  character when it is a \<open>KeyCode\<close> whose \<open>char\<close> is one printable character. It is a named
  control when it is the member \<open>space\<close>, \<open>enter\<close> or \<open>backspace\<close> of \<open>Key\<close>. A third class
  is that of a \<open>KeyCode\<close> whose \<open>char\<close> is the text \<open>Key.space\<close>, \<open>Key.enter\<close> or
  \<open>Key.backspace\<close>. A time stamp is that of a valid \<open>datetime\<close>; \<open>undec\<close> reads a decimal
  numeral back.
\<close>

definition printable_char_key :: "platform \<Rightarrow> key \<Rightarrow> bool" where
  "printable_char_key p key =
     (case key of KeyCode v (Some [c]) d \<Rightarrow> cp_printable p c | _ \<Rightarrow> False)"

definition named_control_key :: "key \<Rightarrow> bool" where
  "named_control_key key =
     (key \<in> set [Key (py ''space''), Key (py ''enter''), Key (py ''backspace'')])"

definition control_text_key :: "key \<Rightarrow> bool" where
  "control_text_key key =
     (case key of
        KeyCode v (Some t) d \<Rightarrow>
          t \<in> set [py ''Key.space'', py ''Key.enter'', py ''Key.backspace'']
      | _ \<Rightarrow> False)"

definition key_a :: key where
  "key_a = KeyCode (Some 65) (Some (py ''a'')) False"

definition key_space :: key where
  "key_space = Key (py ''space'')"

definition key_f1 :: key where
  "key_f1 = Key (py ''f1'')"

definition key_shift :: key where
  "key_shift = Key (py ''shift'')"

definition key_vk :: key where
  \<comment> \<open>a key known by its virtual key code only\<close>
  "key_vk = KeyCode (Some 255) None False"

definition key_text :: key where
  \<comment> \<open>\<open>KeyCode.from_char('Key.space')\<close>\<close>
  "key_text = KeyCode None (Some (py ''Key.space'')) False"

definition valid_datetime :: "datetime \<Rightarrow> bool" where
  "valid_datetime d =
     (1 \<le> year d \<and> year d \<le> 9999 \<and> 1 \<le> month d \<and> month d \<le> 12 \<and>
      1 \<le> day d \<and> day d \<le> 31 \<and> hour d < 24 \<and> minute d < 60 \<and> second d < 60 \<and>
      microsecond d < 1000000)"

definition undec :: "pystr \<Rightarrow> nat" where
  "undec ds = foldl (\<lambda>a c. 10 * a + (c - 48)) 0 ds"

section \<open>Names of clip files\<close>

text \<open>
  \<open>clip_path\<close> is the path \<open>save_key_audio\<close> writes to. \<open>code_label\<close> holds of the labels
  the code accepts. \<open>spec_label\<close> and \<open>spec_file_name\<close> follow the specification's words:
  a label is a single printable character or the literal text \<open>space\<close>, \<open>enter\<close> or
  \<open>backspace\<close>, and a file name is such a label, an underscore and the rest. \<open>clock0\<close>
  is a clock reading for the examples.
\<close>

definition clip_path :: "app \<Rightarrow> pystr \<Rightarrow> datetime \<Rightarrow> pystr" where
  "clip_path s label now = os_path_join (output_dir s) (wav_name label (strftime now))"

definition code_label :: "platform \<Rightarrow> pystr \<Rightarrow> bool" where
  "code_label p l =
     ((length l = 1 \<and> isprintable p l) \<or>
      l \<in> set [py ''Key.space'', py ''Key.enter'', py ''Key.backspace''])"

definition spec_label :: "platform \<Rightarrow> pystr \<Rightarrow> bool" where
  "spec_label p l =
     ((length l = 1 \<and> isprintable p l) \<or>
      l \<in> set [py ''space'', py ''enter'', py ''backspace''])"

definition spec_file_name :: "platform \<Rightarrow> pystr \<Rightarrow> bool" where
  "spec_file_name p n =
     list_ex (\<lambda>i. spec_label p (take i n) \<and> take 1 (drop i n) = py ''_'') [0 ..< Suc (length n)]"

definition clock0 :: datetime where
  "clock0 = \<lparr>year = 2026, month = 1, day = 2, hour = 3, minute = 4, second = 5, microsecond = 67\<rparr>"

section \<open>Device lists\<close>

text \<open>
  No input-capable device: the query for devices raises, or no device it lists has an
  input channel. \<open>silent_app\<close> is a fresh application on a machine with two such devices.
\<close>

definition no_input_device :: "error + int list \<Rightarrow> bool" where
  "no_input_device devices =
     (case devices of Inl e \<Rightarrow> True | Inr ds \<Rightarrow> list_all (\<lambda>n. n \<le> 0) ds)"

definition silent_app :: app where
  "silent_app = init_app (Inr [0, 0]) Map.empty []"

section \<open>File system failures\<close>

text \<open>Two exceptions of the file system, for the examples.\<close>

definition disk_full :: error where
  "disk_full = OSError (py ''[Errno 28] No space left on device'')"

definition csv_locked :: error where
  "csv_locked = OSError (py ''[Errno 13] Permission denied'')"

section \<open>Consistency of the log\<close>

text \<open>
  \<open>log_consistent\<close>: the file named by every metadata row exists under the output
  directory, and no two rows name the same file. \<open>press_stamps\<close> lists the label and the
  clock reading of each key press of a session; \<open>names_unused\<close> holds when no row already
  in the log carries a name that one of these presses would produce.
\<close>

definition log_consistent :: "app \<Rightarrow> bool" where
  "log_consistent s =
     (list_all (\<lambda>r. files s (os_path_join (output_dir s) (row_wav_file r)) \<noteq> None)
        (metadata_rows s) \<and>
      distinct (map row_wav_file (metadata_rows s)))"

fun press_stamps :: "event list \<Rightarrow> ((error + pystr) \<times> datetime) list" where
  "press_stamps [] = []"
| "press_stamps (Press k now fault # es) = (press_label k, now) # press_stamps es"
| "press_stamps (e # es) = press_stamps es"

definition names_unused :: "app \<Rightarrow> event list \<Rightarrow> bool" where
  "names_unused s es =
     list_all (\<lambda>r. list_all (\<lambda>(lab, now).
                  case lab of Inl e \<Rightarrow> True
                  | Inr l \<Rightarrow> row_wav_file r \<noteq> wav_name l (strftime now)) (press_stamps es))
       (metadata_rows s)"

text \<open>
  A session started on an output directory whose metadata file, kept from an earlier
  run, names a clip that is no longer there.
\<close>

definition stale_session :: app where
  "stale_session =
     start_recording
       (init_app (Inr [0, 2]) Map.empty
          [\<lparr>row_timestamp = py ''20260101_000000_000000'', row_key = py ''a'',
            row_wav_file = py ''a_20260101_000000_000000.wav''\<rparr>])
       (Some 60)"

definition clock1 :: datetime where
  "clock1 = \<lparr>year = 2026, month = 1, day = 2, hour = 3, minute = 4, second = 5, microsecond = 68\<rparr>"

text \<open>A session on a fresh application with one input device, started for 60 seconds.\<close>

definition fresh_session :: app where
  "fresh_session = start_recording (init_app (Inr [0, 2]) Map.empty []) (Some 60)"

section \<open>The rolling buffer\<close>

lemma np_roll_left:
  "k \<le> length a \<Longrightarrow> np_roll a (- int k) = drop k a @ take k a"
proof (cases "k = length a")
  case True
  then show ?thesis by (simp add: np_roll_def)
next
  case False
  assume "k \<le> length a"
  with False have "k < length a" by simp
  then have "nat (int k mod int (length a)) = k" by simp
  with \<open>k < length a\<close> show ?thesis by (auto simp: np_roll_def Let_def)
qed

lemma np_roll_length: "length (np_roll a k) = length a"
proof (cases "a = []")
  case True
  then show ?thesis by (simp add: np_roll_def)
next
  case False
  then have "0 < int (length a)" by simp
  then have "(- k) mod int (length a) < int (length a)" by (rule pos_mod_bound)
  then have "nat ((- k) mod int (length a)) \<le> length a" by linarith
  with False show ?thesis by (simp add: np_roll_def Let_def)
qed

lemma assign_tail_block:
  "k \<le> length a \<Longrightarrow> length v = k \<Longrightarrow> 0 < k \<Longrightarrow>
   assign_tail a k v = Inr (take (length a - k) a @ v)"
  by (simp add: assign_tail_def Let_def)

lemma assign_tail_length: "assign_tail a k v = Inr b \<Longrightarrow> length b = length a"
  by (auto simp: assign_tail_def Let_def split: if_splits)

lemma callback_empty:
  "is_recording s \<Longrightarrow> audio_buffer (snd (callback s [] 0)) = audio_buffer s"
  by (simp add: callback_def np_roll_def assign_tail_def Let_def split: sum.splits)

lemma callback_buffer:
  assumes "is_recording s" and "length indata \<le> length (audio_buffer s)"
  shows "audio_buffer (snd (callback s indata (length indata))) =
         drop (length indata) (audio_buffer s) @ indata"
proof (cases "indata = []")
  case True
  then show ?thesis
    using assms(1) callback_empty by simp
next
  case False
  then have pos: "0 < length indata" by simp
  let ?k = "length indata" and ?a = "audio_buffer s"
  have len: "length (drop ?k ?a @ take ?k ?a) = length ?a"
    using assms(2) by simp
  have "assign_tail (drop ?k ?a @ take ?k ?a) ?k indata =
        Inr (take (length ?a - ?k) (drop ?k ?a @ take ?k ?a) @ indata)"
    using assign_tail_block [of ?k "drop ?k ?a @ take ?k ?a" indata] assms(2) pos len by simp
  then show ?thesis
    using assms by (simp add: callback_def np_roll_left Let_def)
qed

lemma callback_recording: "is_recording (snd (callback s indata k)) = is_recording s"
  by (simp add: callback_def Let_def split: sum.splits)

lemma callback_length:
  "length (audio_buffer (snd (callback s indata k))) = length (audio_buffer s)"
  by (auto simp: callback_def np_roll_length Let_def split: sum.splits dest: assign_tail_length)

lemma drop_step:
  assumes "k \<le> length a"
  shows "drop m ((drop k a @ b) @ c) = drop (k + m) (a @ b @ c)"
proof -
  have "(drop k a @ b) @ c = drop k (a @ b @ c)" using assms by simp
  then show ?thesis by (simp only: drop_drop add.commute)
qed

lemma callbacks_buffer:
  "is_recording s \<Longrightarrow> \<forall>b \<in> set blocks. length b \<le> length (audio_buffer s) \<Longrightarrow>
   audio_buffer (callbacks s blocks) =
     drop (length (concat blocks)) (audio_buffer s @ concat blocks)"
proof (induction blocks arbitrary: s)
  case Nil
  then show ?case by simp
next
  case (Cons b blocks)
  let ?s = "snd (callback s b (length b))"
  have b: "length b \<le> length (audio_buffer s)" using Cons.prems by simp
  have step: "audio_buffer ?s = drop (length b) (audio_buffer s) @ b"
    using callback_buffer [OF Cons.prems(1) b] .
  have "audio_buffer (callbacks ?s blocks) =
        drop (length (concat blocks)) (audio_buffer ?s @ concat blocks)"
    using Cons.IH [of ?s] Cons.prems by (simp add: callback_recording callback_length)
  also have "\<dots> = drop (length b + length (concat blocks)) (audio_buffer s @ b @ concat blocks)"
    unfolding step using drop_step [OF b] .
  finally show ?case by simp
qed

lemma block_le_total: "b \<in> set blocks \<Longrightarrow> length b \<le> length (concat blocks)"
  by (induction blocks) auto

lemma fresh_session_simps:
  "is_recording fresh_session"
  "buffer_samples fresh_session = 88200"
  "audio_buffer fresh_session = np_zeros 88200"
  "segment_samples fresh_session = 8820"
  "output_dir fresh_session = py ''recordings''"
  "files fresh_session = Map.empty"
  "metadata_rows fresh_session = []"
  "fs fresh_session = 44100"
  by (simp_all add: fresh_session_def start_recording_def init_app_def)

text \<open>
  C1. While the session records, starting from the zero-filled buffer of \<open>__init__\<close>
  (\<open>buffer_samples\<close> zeros): after any blocks whose lengths add up to at most
  \<open>buffer_samples\<close> were delivered to the callback, the slice
  \<open>audio_buffer[-buffer_samples:]\<close> is the delivered samples in delivery order, preceded by
  zeros in the part not yet filled.
\<close>

theorem snapshot_after_partial_fill:
  assumes "is_recording s"
    and "audio_buffer s = np_zeros (buffer_samples s)"
    and "length (concat blocks) \<le> buffer_samples s"
  shows "snapshot_last (callbacks s blocks) (buffer_samples s) =
         np_zeros (buffer_samples s - length (concat blocks)) @ concat blocks"
proof -
  let ?C = "buffer_samples s" and ?T = "length (concat blocks)"
  have len: "length (audio_buffer s) = ?C" using assms(2) by (simp add: np_zeros_def)
  have "\<forall>b \<in> set blocks. length b \<le> length (audio_buffer s)"
    using block_le_total assms(3) len by fastforce
  then have "audio_buffer (callbacks s blocks) = drop ?T (audio_buffer s @ concat blocks)"
    using callbacks_buffer assms(1) by blast
  also have "\<dots> = replicate (?C - ?T) (Finite 0) @ concat blocks"
    using assms(2,3) by (simp add: np_zeros_def)
  finally have buf: "audio_buffer (callbacks s blocks) = replicate (?C - ?T) (Finite 0) @ concat blocks" .
  have "length (audio_buffer (callbacks s blocks)) = ?C"
    unfolding buf using assms(3) by simp
  then show ?thesis
    using buf by (simp add: snapshot_last_def slice_last_def np_zeros_def)
qed

theorem snapshot_after_partial_fill_witness:
  "is_recording fresh_session \<and>
   audio_buffer fresh_session = np_zeros (buffer_samples fresh_session) \<and>
   length (concat [[Finite (1 / 2), Finite (- (1 / 4))], [Finite 1]]) \<le>
     buffer_samples fresh_session \<and>
   snapshot_last (callbacks fresh_session [[Finite (1 / 2), Finite (- (1 / 4))], [Finite 1]])
       88200 =
     np_zeros 88197 @ [Finite (1 / 2), Finite (- (1 / 4)), Finite 1]"
  using snapshot_after_partial_fill
      [of fresh_session "[[Finite (1 / 2), Finite (- (1 / 4))], [Finite 1]]"]
  by (simp add: fresh_session_simps)

text \<open>
  C2, as amended. While the session records, after blocks of at most \<open>buffer_samples\<close>
  samples each whose lengths add up to more than \<open>buffer_samples\<close>, the slice
  \<open>audio_buffer[-buffer_samples:]\<close> is the last \<open>buffer_samples\<close> samples delivered, in
  delivery order, and it is the same for every other way of cutting the same samples
  into blocks of at most \<open>buffer_samples\<close> samples.
\<close>

theorem snapshot_after_overflow:
  assumes "is_recording s"
    and "length (audio_buffer s) = buffer_samples s"
    and "\<forall>b \<in> set blocks. length b \<le> buffer_samples s"
    and "buffer_samples s < length (concat blocks)"
  shows "snapshot_last (callbacks s blocks) (buffer_samples s) =
           drop (length (concat blocks) - buffer_samples s) (concat blocks) \<and>
         (\<forall>blocks'. concat blocks' = concat blocks \<and>
                    (\<forall>b \<in> set blocks'. length b \<le> buffer_samples s) \<longrightarrow>
            snapshot_last (callbacks s blocks') (buffer_samples s) =
            snapshot_last (callbacks s blocks) (buffer_samples s))"
proof -
  let ?C = "buffer_samples s"
  have key: "snapshot_last (callbacks s bs) ?C = drop (length (concat bs) - ?C) (concat bs)"
    if bs: "\<forall>b \<in> set bs. length b \<le> ?C" and tot: "?C < length (concat bs)" for bs
  proof -
    have "audio_buffer (callbacks s bs) = drop (length (concat bs)) (audio_buffer s @ concat bs)"
      using callbacks_buffer [OF assms(1), of bs] bs assms(2) by simp
    also have "\<dots> = drop (length (concat bs) - ?C) (concat bs)"
      using tot assms(2) by simp
    finally have buf: "audio_buffer (callbacks s bs) = drop (length (concat bs) - ?C) (concat bs)" .
    have "length (audio_buffer (callbacks s bs)) = ?C"
      unfolding buf using tot by simp
    then show ?thesis
      using buf by (simp add: snapshot_last_def slice_last_def)
  qed
  show ?thesis
    using key [of blocks] key assms(3,4) by metis
qed

theorem snapshot_after_overflow_witness:
  "is_recording fresh_session \<and>
   length (audio_buffer fresh_session) = buffer_samples fresh_session \<and>
   length (replicate 88200 (Finite 1)) \<le> buffer_samples fresh_session \<and>
   length [Finite 2, Finite 3] \<le> buffer_samples fresh_session \<and>
   buffer_samples fresh_session <
     length (concat [replicate 88200 (Finite 1), [Finite 2, Finite 3]]) \<and>
   snapshot_last (callbacks fresh_session [replicate 88200 (Finite 1), [Finite 2, Finite 3]])
       88200 =
     replicate 88198 (Finite 1) @ [Finite 2, Finite 3]"
  using snapshot_after_overflow
      [of fresh_session "[replicate 88200 (Finite 1), [Finite 2, Finite 3]]"]
  by (simp add: fresh_session_simps np_zeros_def)

text \<open>
  A block longer than the buffer: the slice assignment raises \<open>ValueError\<close>, the buffer
  keeps its zeros, and the slice is not the last \<open>buffer_samples\<close> samples delivered.
\<close>

lemma oversized_block:
  "callback fresh_session (replicate 88201 (Finite 1)) 88201 =
     (Some (broadcast_error 88201 88200), fresh_session)"
proof -
  have m: "nat (- (- int 88201) mod int 88200) = 1" by simp
  have "replicate 88199 (Finite 0) @ [Finite 0] = replicate (Suc 88199) (Finite 0)"
    by (simp only: replicate_append_same replicate_Suc)
  then have app: "replicate 88199 (Finite 0) @ [Finite 0] = replicate 88200 (Finite 0)" by simp
  have roll: "np_roll (replicate 88200 (Finite 0)) (- int 88201) = replicate 88200 (Finite 0)"
    unfolding np_roll_def Let_def
    by (simp add: app)
  have "assign_tail (replicate 88200 (Finite 0)) 88201 (replicate 88201 (Finite 1)) =
        Inl (broadcast_error 88201 88200)"
    by (simp add: assign_tail_def Let_def)
  then show ?thesis
    using roll by (simp add: callback_def fresh_session_simps np_zeros_def Let_def)
qed

theorem oversized_block_counterexample:
  "buffer_samples fresh_session < length (concat [replicate 88201 (Finite 1)]) \<and>
   snapshot_last (callbacks fresh_session [replicate 88201 (Finite 1)])
       (buffer_samples fresh_session) \<noteq>
     drop (length (concat [replicate 88201 (Finite 1)]) - buffer_samples fresh_session)
          (concat [replicate 88201 (Finite 1)])"
  by (simp add: oversized_block fresh_session_simps snapshot_last_def slice_last_def np_zeros_def)

lemma alternating_snoc: "alternating n @ [Finite 1] = Finite 1 # shifted n"
  by (induction n) (simp_all add: alternating_def shifted_def)

lemma alternating_shift:
  "0 < n \<Longrightarrow> drop 1 (alternating n) @ [Finite 1] = shifted n"
proof -
  assume "0 < n"
  then obtain m where n: "n = Suc m" by (cases n) auto
  have "drop 1 (alternating (Suc m)) @ [Finite 1] = Finite (- 1) # (alternating m @ [Finite 1])"
    by (simp add: alternating_def)
  also have "\<dots> = shifted (Suc m)"
    by (simp add: alternating_snoc) (simp add: shifted_def)
  finally show ?thesis using n by simp
qed

lemma length_alternating: "length (alternating n) = 2 * n"
  by (induction n) (simp_all add: alternating_def)

lemma moved_alternating: "moved_positions (alternating n) (shifted n) = 2 * n"
  by (induction n) (simp_all add: moved_positions_def alternating_def shifted_def)

lemma callbacks_recording: "is_recording (callbacks s blocks) = is_recording s"
  by (induction blocks arbitrary: s) (simp_all add: callback_recording)

lemma callbacks_length:
  "length (audio_buffer (callbacks s blocks)) = length (audio_buffer s)"
  by (induction blocks arbitrary: s) (simp_all add: callback_length)

lemma alternating_filled:
  "audio_buffer (callbacks fresh_session [alternating 44100]) = alternating 44100"
  using callbacks_buffer [of fresh_session "[alternating 44100]"]
  by (simp add: fresh_session_simps np_zeros_def length_alternating)

lemma alternating_appended:
  "audio_buffer (callbacks fresh_session [alternating 44100, [Finite 1]]) = shifted 44100"
proof -
  let ?s = "callbacks fresh_session [alternating 44100]"
  have rec: "is_recording ?s"
    by (simp only: callbacks_recording fresh_session_simps)
  have len: "length [Finite 1] \<le> length (audio_buffer ?s)"
    unfolding alternating_filled length_alternating by simp
  have two: "callbacks fresh_session [alternating 44100, [Finite 1]] =
             snd (callback ?s [Finite 1] (length [Finite 1]))"
    by simp
  have "audio_buffer (snd (callback ?s [Finite 1] (length [Finite 1]))) =
        drop (length [Finite 1]) (audio_buffer ?s) @ [Finite 1]"
    by (rule callback_buffer [OF rec len])
  also have "\<dots> = drop 1 (alternating 44100) @ [Finite 1]"
    unfolding alternating_filled by simp
  also have "\<dots> = shifted 44100"
    by (rule alternating_shift) simp
  finally show ?thesis
    unfolding two .
qed

text \<open>
  With the buffer full of the alternating signal, the delivery of a block of one sample
  changes the value at each of the 88200 positions of the stored array: the work of the
  append is not bounded by the length of the block.
\<close>

theorem append_moves_whole_buffer_counterexample:
  "\<not> moved_positions (audio_buffer (callbacks fresh_session [alternating 44100]))
        (audio_buffer (callbacks fresh_session [alternating 44100, [Finite 1]]))
      \<le> length [Finite 1]"
  by (simp only: alternating_filled alternating_appended moved_alternating) simp

text \<open>
  C3, as amended. The append is a shift of the whole buffer: while the session records,
  for a block of \<open>k\<close> samples with \<open>0 < k \<le> len(audio_buffer)\<close>, \<open>np.roll\<close> builds a
  new array of the full buffer length, every sample that is kept sits \<open>k\<close> positions
  lower in the stored array than before, and the block fills the last \<open>k\<close> positions. The
  state has no write cursor.
\<close>

theorem append_is_full_shift:
  assumes "is_recording s"
    and "0 < length indata"
    and "length indata \<le> length (audio_buffer s)"
  shows "length (np_roll (audio_buffer s) (- int (length indata))) = length (audio_buffer s) \<and>
         (\<forall>i < length (audio_buffer s) - length indata.
            audio_buffer (snd (callback s indata (length indata))) ! i =
            audio_buffer s ! (length indata + i)) \<and>
         (\<forall>i < length indata.
            audio_buffer (snd (callback s indata (length indata))) !
              (length (audio_buffer s) - length indata + i) = indata ! i)"
proof -
  let ?a = "audio_buffer s" and ?k = "length indata"
  have buf: "audio_buffer (snd (callback s indata ?k)) = drop ?k ?a @ indata"
    using callback_buffer [OF assms(1,3)] .
  have kept: "(drop ?k ?a @ indata) ! i = ?a ! (?k + i)" if "i < length ?a - ?k" for i
    using that assms(3) by (simp add: nth_append)
  have new: "(drop ?k ?a @ indata) ! (length ?a - ?k + i) = indata ! i" for i
    using nth_append_length_plus [of "drop ?k ?a" indata i] by simp
  show ?thesis
    unfolding buf using kept new by (simp add: np_roll_length)
qed

theorem append_is_full_shift_witness:
  "is_recording fresh_session \<and> 0 < length [Finite 1, Finite 2] \<and>
   length [Finite 1, Finite 2] \<le> length (audio_buffer fresh_session) \<and>
   audio_buffer (snd (callback fresh_session [Finite 1, Finite 2]
                        (length [Finite 1, Finite 2]))) ! 88198 = Finite 1 \<and>
   audio_buffer (snd (callback fresh_session [Finite 1, Finite 2]
                        (length [Finite 1, Finite 2]))) ! 0 = Finite 0"
  using append_is_full_shift [of fresh_session "[Finite 1, Finite 2]"]
  by (simp add: fresh_session_simps np_zeros_def All_less_Suc)

section \<open>Normalisation and the 16-bit conversion\<close>

lemma fold_f32_max_Finite:
  "fold f32_max (map Finite xs) (Finite x) = Finite (fold max xs x)"
  by (induction xs arbitrary: x) simp_all

lemma finite_list: "list_all is_finite segment \<Longrightarrow> \<exists>rs. segment = map Finite rs"
proof (induction segment)
  case Nil
  then show ?case by simp
next
  case (Cons x segment)
  then obtain rs where rs: "segment = map Finite rs" by auto
  from Cons.prems obtain r where "x = Finite r" by (cases x) simp_all
  with rs have "x # segment = map Finite (r # rs)" by simp
  then show ?case by (rule exI)
qed

lemma np_max_finite:
  assumes "rs \<noteq> []"
  shows "np_max (map f32_abs (map Finite rs)) = Inr (Finite (Max (set (map abs rs))))"
proof -
  from assms obtain a l where rs: "rs = a # l" by (cases rs) auto
  have m: "map f32_abs (map Finite l) = map Finite (map abs l)" by simp
  have "np_max (map f32_abs (map Finite rs)) = Inr (Finite (fold max (map abs l) \<bar>a\<bar>))"
    unfolding rs list.map f32_abs.simps m np_max.simps fold_f32_max_Finite by (rule refl)
  also have "fold max (map abs l) \<bar>a\<bar> = Max (set (map abs rs))"
    unfolding rs using Max.set_eq_fold [of "\<bar>a\<bar>" "map abs l"] by simp
  finally show ?thesis .
qed

lemma peak_props:
  fixes rs :: "real list"
  assumes "rs \<noteq> []"
  shows "\<forall>r \<in> set rs. \<bar>r\<bar> \<le> Max (set (map abs rs))"
    and "\<exists>r \<in> set rs. \<bar>r\<bar> = Max (set (map abs rs))"
    and "0 \<le> Max (set (map abs rs))"
proof -
  have ne: "map abs rs \<noteq> []" using assms by simp
  show "\<forall>r \<in> set rs. \<bar>r\<bar> \<le> Max (set (map abs rs))" by simp
  have "Max (set (map abs rs)) \<in> set (map abs rs)"
    using ne by (intro Max_in) simp_all
  then show ex: "\<exists>r \<in> set rs. \<bar>r\<bar> = Max (set (map abs rs))" by auto
  then obtain r where "\<bar>r\<bar> = Max (set (map abs rs))" by blast
  moreover have "0 \<le> \<bar>r\<bar>" by simp
  ultimately show "0 \<le> Max (set (map abs rs))" by (simp only:)
qed

lemma trunc_bounds:
  assumes "- 32767 \<le> x" and "x \<le> 32767"
  shows "- 32767 \<le> trunc x" and "trunc x \<le> 32767"
  using assms by (auto simp: trunc_def le_floor_iff le_ceiling_iff floor_le_iff ceiling_le_iff)

lemma sint_np_int16:
  assumes "- 32767 \<le> x" and "x \<le> 32767"
  shows "sint (np_int16 p (Finite x)) = trunc x"
    and "- 32767 \<le> sint (np_int16 p (Finite x))" and "sint (np_int16 p (Finite x)) \<le> 32767"
proof -
  note b = trunc_bounds [OF assms]
  have "sint (word_of_int (trunc x) :: 16 word) = signed_take_bit 15 (trunc x)"
    by (simp add: sint_sbintrunc')
  also have "\<dots> = trunc x"
    using b by (intro signed_take_bit_int_eq_self) simp_all
  finally show eq: "sint (np_int16 p (Finite x)) = trunc x" using b by (simp add: np_int16.simps)
  show "- 32767 \<le> sint (np_int16 p (Finite x))" "sint (np_int16 p (Finite x)) \<le> 32767"
    unfolding eq using b by simp_all
qed

lemma scaled_range:
  assumes r: "monotone_exact r" and "0 < peak" and "\<bar>x\<bar> \<le> peak"
  shows "- 1 \<le> r (x / peak)" and "r (x / peak) \<le> 1"
    and "- 32767 \<le> r (r (x / peak) * 32767)" and "r (r (x / peak) * 32767) \<le> 32767"
proof -
  have mono: "\<And>a b. a \<le> b \<Longrightarrow> r a \<le> r b" using r by (simp add: monotone_exact_def)
  have q: "- 1 \<le> x / peak" "x / peak \<le> 1"
    using assms(2,3) by (simp_all add: pos_le_divide_eq pos_divide_le_eq)
  show rq: "- 1 \<le> r (x / peak)" "r (x / peak) \<le> 1"
    using mono [OF q(1)] mono [OF q(2)] r by (simp_all add: monotone_exact_def)
  then have "- 32767 \<le> r (x / peak) * 32767" "r (x / peak) * 32767 \<le> 32767" by simp_all
  then have "r (- 32767) \<le> r (r (x / peak) * 32767)" "r (r (x / peak) * 32767) \<le> r 32767"
    by (simp_all only: mono)
  then show "- 32767 \<le> r (r (x / peak) * 32767)" "r (r (x / peak) * 32767) \<le> 32767"
    using r by (simp_all add: monotone_exact_def)
qed

lemma f32_of_small: "- 32767 \<le> float32 p x \<Longrightarrow> float32 p x \<le> 32767 \<Longrightarrow> f32_of p x = Finite (float32 p x)"
  by (simp add: f32_of_def max_float32_def Let_def)

lemma scaled_finite:
  assumes "monotone_exact (float32 p)" and "0 < peak" and "\<bar>x\<bar> \<le> peak"
  shows "f32_mul p (f32_div p (Finite x) (Finite peak)) 32767 =
         Finite (float32 p (float32 p (x / peak) * 32767))"
proof -
  note b = scaled_range [OF assms]
  have "f32_div p (Finite x) (Finite peak) = Finite (float32 p (x / peak))"
    using assms(2) b(1,2) by (simp add: f32_of_small)
  then show ?thesis using b(3,4) by (simp add: f32_of_small)
qed

lemma scaled_peak:
  assumes r: "monotone_exact r" and "0 < peak" and "\<bar>x\<bar> = peak"
  shows "\<bar>trunc (r (r (x / peak) * 32767))\<bar> = 32767"
proof (cases "0 \<le> x")
  case True
  then have "x / peak = 1" using assms(2,3) by simp
  then have "r (r (x / peak) * 32767) = 32767" using r by (simp add: monotone_exact_def)
  then show ?thesis by (simp add: trunc_def)
next
  case False
  then have "x = - peak" using assms(3) by simp
  then have "x / peak = - 1" using assms(2) by simp
  then have "r (r (x / peak) * 32767) = - 32767" using r by (simp add: monotone_exact_def)
  then show ?thesis by (simp add: trunc_def)
qed

text \<open>On finite samples the normalisation is the one on the numbers they denote.\<close>

lemma normalize_finite:
  assumes "monotone_exact (float32 p)" and "rs \<noteq> []"
  shows "normalize_int16 p (map Finite rs) =
     Inr (if Max (set (map abs rs)) > 0
          then map (\<lambda>r. np_int16 p (Finite (float32 p
                      (float32 p (r / Max (set (map abs rs))) * 32767)))) rs
          else map (\<lambda>r. np_int16 p (Finite r)) rs)"
proof (cases "Max (set (map abs rs)) > 0")
  case True
  let ?pk = "Max (set (map abs rs))"
  have eq: "f32_mul p (f32_div p (Finite r) (Finite ?pk)) 32767 =
            Finite (float32 p (float32 p (r / ?pk) * 32767))" if "r \<in> set rs" for r
    using scaled_finite [OF assms(1) True, of r] peak_props(1) [OF assms(2)] that by blast
  have "map (\<lambda>x. np_int16 p (f32_mul p (f32_div p x (Finite ?pk)) 32767)) (map Finite rs) =
        map (\<lambda>r. np_int16 p (f32_mul p (f32_div p (Finite r) (Finite ?pk)) 32767)) rs"
    by (simp only: map_map comp_def)
  also have "\<dots> = map (\<lambda>r. np_int16 p (Finite (float32 p (float32 p (r / ?pk) * 32767)))) rs"
    by (rule map_cong [OF refl]) (simp only: eq)
  finally show ?thesis
    by (simp only: normalize_int16_def np_max_finite [OF assms(2)] sum.case
          f32_positive.simps True if_True)
next
  case False
  have "map (np_int16 p) (map Finite rs) = map (\<lambda>r. np_int16 p (Finite r)) rs"
    by (simp only: map_map comp_def)
  then show ?thesis
    by (simp only: normalize_int16_def np_max_finite [OF assms(2)] sum.case
          f32_positive.simps False if_False)
qed

lemma np_int16_zero: "np_int16 p (Finite 0) = 0"
  by (simp add: np_int16.simps trunc_def)

lemma normalize_total:
  "segment \<noteq> [] \<Longrightarrow> \<exists>clip. normalize_int16 p segment = Inr clip"
  by (cases segment) (simp_all add: normalize_int16_def)

text \<open>
  A segment with an infinite sample: the peak is infinite, the quotients are \<open>0\<close> or NaN,
  and the clip is all zeros although the largest absolute sample value is not zero.
\<close>

theorem infinite_sample_counterexample:
  "np_max (map f32_abs [PosInf, Finite (1 / 2)]) = Inr PosInf \<and>
   normalize_int16 exact [PosInf, Finite (1 / 2)] = Inr [0, 0] \<and>
   Max ((\<lambda>w. \<bar>sint w\<bar>) ` set [0, 0 :: 16 word]) \<noteq> 32767"
  by (simp add: normalize_int16_def exact_def f32_of_def np_int16.simps trunc_def
        max_float32_def)

text \<open>
  C4, as amended. On a platform whose rounding is monotone and exact on \<open>float32\<close> values,
  for a segment whose samples are all finite: the normalisation of \<open>save_key_audio\<close>
  returns a clip when the segment is not empty, of the segment's length. When all
  samples of the segment are zero, all samples of the clip are zero; when some sample is
  not zero, the largest absolute value among the clip's signed 16-bit samples is exactly
  32767.
\<close>

theorem peak_normalisation:
  assumes "monotone_exact (float32 p)" and "list_all is_finite segment"
  shows "(segment \<noteq> [] \<longrightarrow> (\<exists>clip. normalize_int16 p segment = Inr clip)) \<and>
         (\<forall>clip. normalize_int16 p segment = Inr clip \<longrightarrow>
            length clip = length segment \<and>
            ((\<forall>x \<in> set segment. x = Finite 0) \<longrightarrow> (\<forall>w \<in> set clip. w = 0)) \<and>
            ((\<exists>x \<in> set segment. x \<noteq> Finite 0) \<longrightarrow>
               Max ((\<lambda>w. \<bar>sint w\<bar>) ` set clip) = 32767))"
proof (cases "segment = []")
  case True
  then show ?thesis by (simp add: normalize_int16_def)
next
  case False
  from finite_list [OF assms(2)] obtain rs where seg: "segment = map Finite rs" by blast
  with False have ne: "rs \<noteq> []" by simp
  let ?pk = "Max (set (map abs rs))"
  let ?f = "\<lambda>r. np_int16 p (Finite (float32 p (float32 p (r / ?pk) * 32767)))"
  note norm = normalize_finite [OF assms(1) ne]
  have zero: "\<forall>w \<in> set clip. w = 0"
    if n: "normalize_int16 p segment = Inr clip" and z: "\<forall>x \<in> set segment. x = Finite 0"
    for clip
  proof -
    have rz: "\<forall>r \<in> set rs. r = 0" using z unfolding seg by simp
    with peak_props(2) [OF ne] have "?pk = 0" by auto
    then have "clip = map (\<lambda>r. np_int16 p (Finite r)) rs"
      using n norm unfolding seg by simp
    with rz show ?thesis by (auto simp: np_int16.simps trunc_def)
  qed
  have peak: "Max ((\<lambda>w. \<bar>sint w\<bar>) ` set clip) = 32767"
    if n: "normalize_int16 p segment = Inr clip" and nz: "\<exists>x \<in> set segment. x \<noteq> Finite 0"
    for clip
  proof -
    from nz obtain r where r: "r \<in> set rs" "r \<noteq> 0" unfolding seg by auto
    have "\<bar>r\<bar> \<le> ?pk" by (rule peak_props(1) [OF ne, rule_format, OF r(1)])
    moreover have "0 < \<bar>r\<bar>" using r(2) by simp
    ultimately have pos: "0 < ?pk" by linarith
    have clip: "clip = map ?f rs" using n norm pos unfolding seg by simp
    have le: "\<bar>sint (?f r)\<bar> \<le> 32767" if "r \<in> set rs" for r
    proof -
      have "\<bar>r\<bar> \<le> ?pk" using that peak_props(1) [OF ne] by blast
      from scaled_range(3,4) [OF assms(1) pos this]
      have "- 32767 \<le> float32 p (float32 p (r / ?pk) * 32767)"
        and "float32 p (float32 p (r / ?pk) * 32767) \<le> 32767" .
      from sint_np_int16(2,3) [OF this, of p] show ?thesis
        by (simp add: abs_le_iff)
    qed
    from peak_props(2) [OF ne] obtain r0 where r0: "r0 \<in> set rs" "\<bar>r0\<bar> = ?pk" by blast
    have "\<bar>r0\<bar> \<le> ?pk" using r0(2) by simp
    from scaled_range(3,4) [OF assms(1) pos this]
    have "sint (?f r0) = trunc (float32 p (float32 p (r0 / ?pk) * 32767))"
      by (rule sint_np_int16(1))
    then have at: "\<bar>sint (?f r0)\<bar> = 32767"
      using scaled_peak [OF assms(1) pos r0(2)] by simp
    show ?thesis
    proof (rule Max_eqI)
      show "finite ((\<lambda>w. \<bar>sint w\<bar>) ` set clip)" by simp
      show "\<And>y. y \<in> (\<lambda>w. \<bar>sint w\<bar>) ` set clip \<Longrightarrow> y \<le> 32767"
        unfolding clip using le by auto
      show "32767 \<in> (\<lambda>w. \<bar>sint w\<bar>) ` set clip"
        unfolding clip using r0(1) at by (auto simp: image_iff intro!: bexI [of _ r0])
    qed
  qed
  have len: "length clip = length segment" if "normalize_int16 p segment = Inr clip" for clip
    using that norm unfolding seg by (auto split: if_splits)
  show ?thesis
    using normalize_total [OF False] zero peak len by blast
qed

lemma exact_monotone_exact: "monotone_exact (float32 exact)"
  by (simp add: monotone_exact_def exact_def)

lemma normalize_example:
  "normalize_int16 exact [Finite (1 / 2), Finite (- (1 / 4)), Finite (1 / 8)] =
     Inr [32767, - 16383, 8191]"
  by (simp add: normalize_int16_def exact_def f32_of_def np_int16.simps trunc_def
        max_float32_def)

theorem peak_normalisation_witness:
  "monotone_exact (float32 exact) \<and>
   list_all is_finite [Finite (1 / 2), Finite (- (1 / 4)), Finite (1 / 8)] \<and>
   normalize_int16 exact [Finite (1 / 2), Finite (- (1 / 4)), Finite (1 / 8)] =
     Inr [32767, - 16383, 8191] \<and>
   Max ((\<lambda>w. \<bar>sint w\<bar>) ` set [32767, - 16383, 8191 :: 16 word]) = 32767"
  using peak_normalisation [of exact "[Finite (1 / 2), Finite (- (1 / 4)), Finite (1 / 8)]"]
  by (simp add: exact_monotone_exact normalize_example)

text \<open>
  A segment with a NaN sample: the peak is NaN, the test \<open>> 0\<close> fails and the samples are
  cast without scaling. The sample 40000 is stored as -25536 and the sample 32768 as
  -32768: the cast wrapped, and -32768 is outside the range from -32767 to 32767.
\<close>

theorem nan_sample_counterexample:
  "np_max (map f32_abs [NaN, Finite 40000, Finite (- (3 / 2))]) = Inr NaN \<and>
   normalize_int16 exact [NaN, Finite 40000, Finite (- (3 / 2))] = Inr [0, - 25536, - 1] \<and>
   sint (- 25536 :: 16 word) \<noteq> trunc 40000 \<and>
   normalize_int16 exact [NaN, Finite 32768] = Inr [0, - 32768] \<and>
   sint (- 32768 :: 16 word) < - 32767"
  by (simp add: normalize_int16_def exact_def np_int16.simps trunc_def)

text \<open>
  C10, as amended. On a platform whose rounding is monotone and exact on \<open>float32\<close>
  values, for a segment whose samples are all finite: every sample of the clip that the
  conversion returns, read as a signed 16-bit number, lies between -32767 and 32767.
  When the peak is positive each sample is the truncation towards zero of the segment's
  sample divided by the peak and multiplied by 32767 (each operation rounded to
  \<open>float32\<close>), so the cast to 16 bits did not wrap; when the peak is zero the clip is all
  zeros.
\<close>

theorem int16_conversion_in_range:
  assumes "monotone_exact (float32 p)" and "list_all is_finite segment"
  shows "\<forall>clip. normalize_int16 p segment = Inr clip \<longrightarrow>
           (\<forall>w \<in> set clip. - 32767 \<le> sint w \<and> sint w \<le> 32767) \<and>
           (\<forall>peak. np_max (map f32_abs segment) = Inr (Finite peak) \<and> 0 < peak \<longrightarrow>
              map sint clip =
              map (\<lambda>x. trunc (float32 p (float32 p (finite_value x / peak) * 32767))) segment) \<and>
           (np_max (map f32_abs segment) = Inr (Finite 0) \<longrightarrow>
              clip = replicate (length segment) 0)"
proof (cases "segment = []")
  case True
  then show ?thesis by (simp add: normalize_int16_def)
next
  case False
  from finite_list [OF assms(2)] obtain rs where seg: "segment = map Finite rs" by blast
  with False have ne: "rs \<noteq> []" by simp
  let ?pk = "Max (set (map abs rs))"
  let ?y = "\<lambda>r. float32 p (float32 p (r / ?pk) * 32767)"
  note norm = normalize_finite [OF assms(1) ne]
  have pk: "np_max (map f32_abs segment) = Inr (Finite ?pk)"
    unfolding seg by (rule np_max_finite [OF ne])
  have bounds: "- 32767 \<le> ?y r \<and> ?y r \<le> 32767" if "r \<in> set rs" "0 < ?pk" for r
    using scaled_range(3,4) [OF assms(1) that(2), of r] peak_props(1) [OF ne] that(1) by blast
  show ?thesis
  proof (intro allI impI)
    fix clip
    assume n: "normalize_int16 p segment = Inr clip"
    have zero: "clip = replicate (length segment) 0" if "?pk = 0"
    proof -
      have rz: "r = 0" if "r \<in> set rs" for r
      proof -
        have "\<bar>r\<bar> \<le> ?pk" by (rule peak_props(1) [OF ne, rule_format, OF that])
        then have "\<bar>r\<bar> \<le> 0" unfolding \<open>?pk = 0\<close> .
        then show ?thesis by simp
      qed
      have "clip = map (\<lambda>r. np_int16 p (Finite r)) rs"
        using n norm that unfolding seg by simp
      also have "\<dots> = map (\<lambda>r. 0) rs"
        by (rule map_cong [OF refl]) (metis rz np_int16_zero)
      finally show ?thesis unfolding seg by (simp add: map_replicate_const)
    qed
    have scaled: "map sint clip = map (\<lambda>r. trunc (?y r)) rs" if pos: "0 < ?pk"
    proof -
      have "clip = map (\<lambda>r. np_int16 p (Finite (?y r))) rs"
        using n norm pos unfolding seg by simp
      then have "map sint clip = map (\<lambda>r. sint (np_int16 p (Finite (?y r)))) rs"
        by (simp add: comp_def)
      also have "\<dots> = map (\<lambda>r. trunc (?y r)) rs"
        by (rule map_cong [OF refl]) (use bounds pos sint_np_int16(1) in blast)
      finally show ?thesis .
    qed
    have range: "\<forall>w \<in> set clip. - 32767 \<le> sint w \<and> sint w \<le> 32767"
    proof (cases "0 < ?pk")
      case True
      have "clip = map (\<lambda>r. np_int16 p (Finite (?y r))) rs"
        using n norm True unfolding seg by simp
      then show ?thesis
        using bounds True sint_np_int16(2,3) by auto
    next
      case False
      then have "?pk = 0" using peak_props(3) [OF ne] by simp
      from zero [OF this] show ?thesis by auto
    qed
    have fv: "map (\<lambda>x. trunc (float32 p (float32 p (finite_value x / ?pk) * 32767))) segment =
              map (\<lambda>r. trunc (?y r)) rs"
      unfolding seg by (simp add: comp_def)
    show "(\<forall>w \<in> set clip. - 32767 \<le> sint w \<and> sint w \<le> 32767) \<and>
          (\<forall>peak. np_max (map f32_abs segment) = Inr (Finite peak) \<and> 0 < peak \<longrightarrow>
             map sint clip =
             map (\<lambda>x. trunc (float32 p (float32 p (finite_value x / peak) * 32767))) segment) \<and>
          (np_max (map f32_abs segment) = Inr (Finite 0) \<longrightarrow>
             clip = replicate (length segment) 0)"
      using range scaled zero fv unfolding pk by auto
  qed
qed

theorem int16_conversion_in_range_witness:
  "monotone_exact (float32 exact) \<and>
   list_all is_finite [Finite (1 / 2), Finite (- (1 / 4)), Finite (1 / 8)] \<and>
   normalize_int16 exact [Finite (1 / 2), Finite (- (1 / 4)), Finite (1 / 8)] =
     Inr [32767, - 16383, 8191] \<and>
   map sint [32767, - 16383, 8191 :: 16 word] = [32767, - 16383, 8191]"
  using int16_conversion_in_range
      [of exact "[Finite (1 / 2), Finite (- (1 / 4)), Finite (1 / 8)]"]
  by (simp add: exact_monotone_exact normalize_example)

section \<open>Key filtering\<close>

lemma on_press_key_events:
  "snd (on_press p s key now fault) =
   foldl (\<lambda>s k. save_key_audio p s k now fault) s (key_events p s key)"
  by (simp add: on_press_def key_events_def split: sum.splits)

lemma key_events_short: "length (key_events p s key) \<le> 1"
  by (simp add: key_events_def split: sum.splits)

text \<open>What \<open>on_press\<close> does with each form of key, while the session records.\<close>

lemma events_KeyCode_char:
  "is_recording s \<Longrightarrow>
   key_events p s (KeyCode v (Some [c]) d) = (if cp_printable p c then [[c]] else [])"
  by (simp add: key_events_def accepted_def isprintable_def py_def)

lemma events_KeyCode_text:
  "is_recording s \<Longrightarrow> length t \<noteq> 1 \<Longrightarrow>
   key_events p s (KeyCode v (Some t) d) =
     (if t \<in> set [py ''Key.space'', py ''Key.enter'', py ''Key.backspace''] then [t] else [])"
  by (auto simp: key_events_def accepted_def repr_str_def py_def)

lemma events_KeyCode_no_char: "key_events p s (KeyCode v None d) = []"
  by (cases v) (auto simp: key_events_def accepted_def isprintable_def py_def dec.simps
                  split: sum.splits)

lemma events_Key:
  "is_recording s \<Longrightarrow>
   key_events p s (Key n) =
     (if n \<in> set [py ''space'', py ''enter'', py ''backspace''] then [py ''Key.'' @ n] else [])"
  by (auto simp: key_events_def accepted_def py_def)

lemma events_NoKey: "key_events p s NoKey = []"
  by (simp add: key_events_def accepted_def py_def)

lemma key_events_idle: "\<not> is_recording s \<Longrightarrow> key_events p s key = []"
  by (simp add: key_events_def)

lemma one_event_iff:
  "(length (key_events p s key) = 1) =
     (is_recording s \<and>
      (printable_char_key p key \<or> named_control_key key \<or> control_text_key key))"
proof (cases "is_recording s")
  case False
  then show ?thesis by (simp add: key_events_idle)
next
  case True
  show ?thesis
  proof (cases key)
    case (KeyCode v c d)
    show ?thesis
    proof (cases c)
      case None
      with KeyCode True show ?thesis
        by (simp add: events_KeyCode_no_char printable_char_key_def named_control_key_def
              control_text_key_def)
    next
      case (Some t)
      show ?thesis
      proof (cases "length t = 1")
        case one: True
        then obtain c' where t: "t = [c']" by (cases t) auto
        show ?thesis
          unfolding KeyCode Some t
          using True
          by (simp add: events_KeyCode_char printable_char_key_def named_control_key_def
                control_text_key_def py_def)
      next
        case other: False
        then have "printable_char_key p key = False"
          unfolding KeyCode Some
          by (cases t rule: list.exhaust; cases "tl t")
             (auto simp: printable_char_key_def)
        then show ?thesis
          unfolding KeyCode Some
          using True other
          by (simp add: events_KeyCode_text named_control_key_def control_text_key_def)
      qed
    qed
  next
    case (Key n)
    with True show ?thesis
      by (simp add: events_Key printable_char_key_def named_control_key_def
            control_text_key_def py_def)
  next
    case NoKey
    with True show ?thesis
      by (simp add: events_NoKey printable_char_key_def named_control_key_def
            control_text_key_def)
  qed
qed

text \<open>
  A press of \<open>a\<close> after the session was stopped produces nothing. While the session
  records, a \<open>KeyCode\<close> whose \<open>char\<close> is the text \<open>Key.space\<close>, which is neither one printable
  character nor a named control, produces an event.
\<close>

theorem key_filter_counterexample:
  "printable_char_key exact key_a \<and>
   key_events exact (stop_recording fresh_session) key_a = [] \<and>
   \<not> printable_char_key exact key_text \<and>
   \<not> named_control_key key_text \<and>
   key_events exact fresh_session key_text = [py ''Key.space'']"
proof -
  have "printable_char_key exact key_a"
    by (simp add: printable_char_key_def key_a_def py_def cp_printable_def)
  moreover have "key_events exact (stop_recording fresh_session) key_a = []"
    by (simp add: key_events_def stop_recording_def)
  moreover have "\<not> printable_char_key exact key_text" "\<not> named_control_key key_text"
    by (simp_all add: printable_char_key_def named_control_key_def key_text_def py_def)
  moreover have "key_events exact fresh_session key_text = [py ''Key.space'']"
    by (simp add: key_events_def key_text_def fresh_session_simps accepted_def py_def)
  ultimately show ?thesis by blast
qed

text \<open>
  C5, as amended. \<open>on_press\<close> passes exactly one label to \<open>save_key_audio\<close> if and only if
  the session is recording and the key decodes to exactly one printable character, or is
  one of the named controls space, enter and backspace, or is a \<open>KeyCode\<close> whose \<open>char\<close> is
  the text \<open>Key.space\<close>, \<open>Key.enter\<close> or \<open>Key.backspace\<close>. It never passes more than one, and
  the state after \<open>on_press\<close> is the state after these saves; a key press that passes
  none leaves the state as it was. While the session records, the label of a
  \<open>KeyCode\<close> with a one-character \<open>char\<close> is that character, and the label of a member of
  \<open>Key\<close> is \<open>Key.\<close> followed by its name.
\<close>

theorem key_filter:
  "(length (key_events p s key) = 1) =
     (is_recording s \<and>
      (printable_char_key p key \<or> named_control_key key \<or> control_text_key key)) \<and>
   length (key_events p s key) \<le> 1 \<and>
   snd (on_press p s key now fault) =
     foldl (\<lambda>s k. save_key_audio p s k now fault) s (key_events p s key) \<and>
   (key_events p s key = [] \<longrightarrow> snd (on_press p s key now fault) = s) \<and>
   (is_recording s \<longrightarrow>
      (\<forall>v c d. key = KeyCode v (Some [c]) d \<longrightarrow>
         key_events p s key = (if cp_printable p c then [[c]] else [])) \<and>
      (\<forall>n. key = Key n \<longrightarrow>
         key_events p s key =
           (if n \<in> set [py ''space'', py ''enter'', py ''backspace'']
            then [py ''Key.'' @ n] else [])))"
  using one_event_iff [of p s key] key_events_short [of p s key]
    on_press_key_events [of p s key now fault] events_KeyCode_char [of s p] events_Key [of s p]
  by simp

theorem key_filter_witness:
  "is_recording fresh_session \<and>
   length (key_events exact fresh_session key_a) = 1 \<and>
   length (key_events exact fresh_session key_space) = 1 \<and>
   length (key_events exact fresh_session key_shift) \<noteq> 1 \<and>
   length (key_events exact fresh_session key_f1) \<noteq> 1 \<and>
   length (key_events exact fresh_session key_vk) \<noteq> 1 \<and>
   length (key_events exact fresh_session NoKey) \<noteq> 1"
proof -
  have rec: "is_recording fresh_session" by (simp add: fresh_session_simps)
  have a: "printable_char_key exact key_a"
    by (simp add: printable_char_key_def key_a_def py_def cp_printable_def)
  have sp: "named_control_key key_space"
    by (simp add: named_control_key_def key_space_def)
  have no: "\<not> (printable_char_key exact k \<or> named_control_key k \<or> control_text_key k)"
    if "k \<in> {key_shift, key_f1, key_vk, NoKey}" for k
    using that
    by (auto simp: printable_char_key_def named_control_key_def control_text_key_def
          key_shift_def key_f1_def key_vk_def py_def)
  note f = key_filter [of exact fresh_session, THEN conjunct1]
  have "length (key_events exact fresh_session key_a) = 1"
    using f [of key_a] rec a by blast
  moreover have "length (key_events exact fresh_session key_space) = 1"
    using f [of key_space] rec sp by blast
  moreover have "length (key_events exact fresh_session key_shift) \<noteq> 1"
    using f [of key_shift] no [of key_shift] by blast
  moreover have "length (key_events exact fresh_session key_f1) \<noteq> 1"
    using f [of key_f1] no [of key_f1] by blast
  moreover have "length (key_events exact fresh_session key_vk) \<noteq> 1"
    using f [of key_vk] no [of key_vk] by blast
  moreover have "length (key_events exact fresh_session NoKey) \<noteq> 1"
    using f [of NoKey] no [of NoKey] by blast
  ultimately show ?thesis using rec by blast
qed

section \<open>Time stamps\<close>

lemma dec_length: "0 < w \<Longrightarrow> n < 10 ^ w \<Longrightarrow> length (dec n) \<le> w"
proof (induction n arbitrary: w rule: dec.induct)
  case (1 n)
  show ?case
  proof (cases "n < 10")
    case True
    then show ?thesis using "1.prems" by (simp add: dec.simps)
  next
    case False
    obtain v where w: "w = Suc v" using "1.prems"(1) by (cases w) auto
    have v: "0 < v" using False "1.prems"(2) w by (cases v) auto
    have "n div 10 < 10 ^ v" using "1.prems"(2) w by (simp add: less_mult_imp_div_less mult.commute)
    from "1.IH" [OF False v this] show ?thesis
      using False w by (simp add: dec.simps [of n])
  qed
qed

lemma zpad_length: "0 < w \<Longrightarrow> n < 10 ^ w \<Longrightarrow> length (zpad w n) = w"
  using dec_length [of w n] by (simp add: zpad_def)

lemma undec_snoc: "undec (ds @ [c]) = 10 * undec ds + (c - 48)"
  by (simp add: undec_def)

lemma undec_dec: "undec (dec n) = n"
proof (induction n rule: dec.induct)
  case (1 n)
  show ?case
  proof (cases "n < 10")
    case True
    then show ?thesis by (simp add: dec.simps undec_def)
  next
    case False
    with "1.IH" show ?thesis
      by (simp add: dec.simps [of n] undec_snoc)
  qed
qed

lemma undec_zeros: "foldl (\<lambda>a c. 10 * a + (c - 48)) 0 (replicate k 48) = (0 :: nat)"
  by (induction k) simp_all

lemma undec_zpad: "undec (zpad w n) = n"
  using undec_dec [of n] by (simp add: zpad_def undec_def undec_zeros)

lemma zpad_inj: "zpad w n = zpad w m \<Longrightarrow> n = m"
  using undec_zpad by metis

lemma strftime_length: "valid_datetime d \<Longrightarrow> length (strftime d) = 22"
  by (simp add: strftime_def valid_datetime_def zpad_length py_def)

lemma strftime_inj:
  assumes "valid_datetime d" and "valid_datetime e" and "strftime d = strftime e"
  shows "d = e"
proof -
  have l4: "length (zpad 4 (year d)) = length (zpad 4 (year e))"
    and l2: "length (zpad 2 (month d)) = length (zpad 2 (month e))"
      "length (zpad 2 (day d)) = length (zpad 2 (day e))"
      "length (zpad 2 (hour d)) = length (zpad 2 (hour e))"
      "length (zpad 2 (minute d)) = length (zpad 2 (minute e))"
      "length (zpad 2 (second d)) = length (zpad 2 (second e))"
    using assms(1,2) by (simp_all add: valid_datetime_def zpad_length)
  have "zpad 4 (year d) = zpad 4 (year e) \<and> zpad 2 (month d) = zpad 2 (month e) \<and>
        zpad 2 (day d) = zpad 2 (day e) \<and> zpad 2 (hour d) = zpad 2 (hour e) \<and>
        zpad 2 (minute d) = zpad 2 (minute e) \<and> zpad 2 (second d) = zpad 2 (second e) \<and>
        zpad 6 (microsecond d) = zpad 6 (microsecond e)"
    using assms(3) l4 l2 by (simp add: strftime_def py_def)
  then have "year d = year e" "month d = month e" "day d = day e" "hour d = hour e"
    "minute d = minute e" "second d = second e" "microsecond d = microsecond e"
    by (auto dest: zpad_inj)
  then show ?thesis by simp
qed

section \<open>Clip files and their names\<close>

lemma strftime_clock0: "strftime clock0 = py ''20260102_030405_000067''"
  by code_simp

lemma valid_clock0: "valid_datetime clock0"
  by (simp add: valid_datetime_def clock0_def)

lemma spec_name_fails: "\<not> spec_file_name exact (py ''Key.space_20260102_030405_000067.wav'')"
  by code_simp

lemma normalize_zeros:
  "0 < n \<Longrightarrow> normalize_int16 p (replicate n (Finite 0)) = Inr (replicate n 0)"
proof -
  assume n: "0 < n"
  have "replicate n (Finite 0) = map Finite (replicate n 0)" by simp
  moreover have "Max (set (map abs (replicate n (0 :: real)))) = 0" using n by simp
  ultimately have "np_max (map f32_abs (replicate n (Finite 0))) = Inr (Finite 0)"
    using np_max_finite [of "replicate n 0"] n by simp
  then show ?thesis by (simp add: normalize_int16_def np_int16_zero)
qed

lemma fresh_segment:
  "normalize_int16 p (slice_last (audio_buffer fresh_session) (segment_samples fresh_session)) =
   Inr (replicate 8820 0)"
  by (simp add: fresh_session_simps slice_last_def np_zeros_def normalize_zeros)

lemma save_ok:
  "normalize_int16 p (slice_last (audio_buffer s) (segment_samples s)) = Inr clip \<Longrightarrow>
   save_key_audio p s label now IoOk =
     s\<lparr>files := (files s)(clip_path s label now \<mapsto> Wav 1 2 (fs s) clip),
       metadata_rows := metadata_rows s @
         [\<lparr>row_timestamp = strftime now, row_key = label,
           row_wav_file = wav_name label (strftime now)\<rparr>]\<rparr>"
  by (simp add: save_key_audio_def clip_path_def Let_def)

lemma on_press_accepted:
  "is_recording s \<Longrightarrow> press_label key = Inr label \<Longrightarrow> accepted p label \<Longrightarrow>
   snd (on_press p s key now fault) = save_key_audio p s label now fault"
  by (simp add: on_press_def)

lemma on_press_other:
  "\<not> is_recording s \<or> press_label key = Inl e \<or> (press_label key = Inr label \<and> \<not> accepted p label) \<Longrightarrow>
   snd (on_press p s key now fault) = s"
  by (auto simp: on_press_def)

lemma save_files_elsewhere:
  "q \<noteq> clip_path s label now \<Longrightarrow> files (save_key_audio p s label now fault) q = files s q"
  by (simp add: save_key_audio_def clip_path_def save_error_def Let_def
           split: sum.splits io.splits)

lemma save_rows:
  "metadata_rows (save_key_audio p s label now fault) = metadata_rows s \<or>
   (fault = IoOk \<and>
    metadata_rows (save_key_audio p s label now fault) = metadata_rows s @
      [\<lparr>row_timestamp = strftime now, row_key = label,
        row_wav_file = wav_name label (strftime now)\<rparr>] \<and>
    files (save_key_audio p s label now fault) (clip_path s label now) \<noteq> None)"
  by (simp add: save_key_audio_def clip_path_def save_error_def Let_def
           split: sum.splits io.splits)

lemma save_keeps:
  "is_recording (save_key_audio p s label now fault) = is_recording s"
  "audio_buffer (save_key_audio p s label now fault) = audio_buffer s"
  "output_dir (save_key_audio p s label now fault) = output_dir s"
  "segment_samples (save_key_audio p s label now fault) = segment_samples s"
  "buffer_samples (save_key_audio p s label now fault) = buffer_samples s"
  "fs (save_key_audio p s label now fault) = fs s"
  "input_device (save_key_audio p s label now fault) = input_device s"
  by (simp_all add: save_key_audio_def save_error_def Let_def split: sum.splits io.splits)

lemma save_files_grow:
  "files s q \<noteq> None \<Longrightarrow> files (save_key_audio p s label now fault) q \<noteq> None"
  by (simp add: save_key_audio_def save_error_def Let_def split: sum.splits io.splits)

lemma accepted_code_label: "accepted p l = code_label p l"
  by (auto simp: accepted_def code_label_def)

text \<open>
  C6, as amended. Every file that \<open>on_press\<close> writes or changes is stored under
  \<open>os.path.join(output_dir, name)\<close> with \<open>name\<close> the label, an underscore, the time stamp
  and \<open>.wav\<close>, and so is the file named in every metadata row it adds; the label is the
  one \<open>on_press\<close> computed, a single printable character or one of the texts
  \<open>Key.space\<close>, \<open>Key.enter\<close>, \<open>Key.backspace\<close>. The time stamp has microsecond
  resolution: two valid clock readings with the same time stamp are equal.
\<close>

theorem clip_file_name:
  "(\<forall>path. files (snd (on_press p s key now fault)) path \<noteq> files s path \<longrightarrow>
      (\<exists>label. press_label key = Inr label \<and> code_label p label \<and>
         path = os_path_join (output_dir s)
                  (label @ py ''_'' @ strftime now @ py ''.wav''))) \<and>
   (metadata_rows (snd (on_press p s key now fault)) \<noteq> metadata_rows s \<longrightarrow>
      (\<exists>label. press_label key = Inr label \<and> code_label p label \<and>
         metadata_rows (snd (on_press p s key now fault)) = metadata_rows s @
           [\<lparr>row_timestamp = strftime now, row_key = label,
             row_wav_file = label @ py ''_'' @ strftime now @ py ''.wav''\<rparr>])) \<and>
   (\<forall>d e. valid_datetime d \<and> valid_datetime e \<and> strftime d = strftime e \<longrightarrow> d = e)"
proof (cases "is_recording s \<and> (\<exists>label. press_label key = Inr label \<and> accepted p label)")
  case True
  then obtain label where rec: "is_recording s" and l: "press_label key = Inr label"
    and acc: "accepted p label" by blast
  have eq: "snd (on_press p s key now fault) = save_key_audio p s label now fault"
    by (rule on_press_accepted [OF rec l acc])
  have code: "code_label p label" using acc by (simp add: accepted_code_label)
  show ?thesis
    unfolding eq
    using save_files_elsewhere [of _ s label now p fault] save_rows [of p s label now fault]
      l code strftime_inj
    by (auto simp: clip_path_def wav_name_def)
next
  case False
  then have "snd (on_press p s key now fault) = s"
    by (cases "press_label key") (auto simp: on_press_def)
  then show ?thesis using strftime_inj by auto
qed

lemma press_saved:
  assumes "is_recording s" and "press_label key = Inr label" and "accepted p label"
    and "normalize_int16 p (slice_last (audio_buffer s) (segment_samples s)) = Inr clip"
  shows "snd (on_press p s key now IoOk) =
     s\<lparr>files := (files s)(clip_path s label now \<mapsto> Wav 1 2 (fs s) clip),
       metadata_rows := metadata_rows s @
         [\<lparr>row_timestamp = strftime now, row_key = label,
           row_wav_file = wav_name label (strftime now)\<rparr>]\<rparr>"
  using on_press_accepted [OF assms(1-3)] save_ok [OF assms(4)] by simp

lemma label_space: "press_label key_space = Inr (py ''Key.space'')"
  by (simp add: key_space_def py_def)

lemma label_a: "press_label key_a = Inr (py ''a'')"
  by (simp add: key_a_def py_def)

lemma accepted_space: "accepted p (py ''Key.space'')"
  by (simp add: accepted_def)

lemma accepted_a: "accepted p (py ''a'')"
  by (simp add: accepted_def isprintable_def cp_printable_def py_def)

lemma name_space:
  "wav_name (py ''Key.space'') (py ''20260102_030405_000067'') =
     py ''Key.space_20260102_030405_000067.wav''"
  by (simp add: wav_name_def py_def)

lemma name_a:
  "wav_name (py ''a'') (py ''20260102_030405_000067'') = py ''a_20260102_030405_000067.wav''"
  by (simp add: wav_name_def py_def)

lemma join_recordings:
  "os_path_join (py ''recordings'') (py ''Key.space_20260102_030405_000067.wav'') =
     py ''recordings/Key.space_20260102_030405_000067.wav''"
  "os_path_join (py ''recordings'') (py ''a_20260102_030405_000067.wav'') =
     py ''recordings/a_20260102_030405_000067.wav''"
  by (simp_all add: os_path_join_def py_def)

lemma space_press:
  "snd (on_press exact fresh_session key_space clock0 IoOk) =
     fresh_session\<lparr>files :=
         [py ''recordings/Key.space_20260102_030405_000067.wav'' \<mapsto>
            Wav 1 2 44100 (replicate 8820 0)],
       metadata_rows :=
         [\<lparr>row_timestamp = py ''20260102_030405_000067'', row_key = py ''Key.space'',
           row_wav_file = py ''Key.space_20260102_030405_000067.wav''\<rparr>]\<rparr>"
  using press_saved [OF fresh_session_simps(1) label_space accepted_space fresh_segment,
      of exact clock0]
  by (simp add: clip_path_def name_space join_recordings fresh_session_simps strftime_clock0)

text \<open>
  The space key in a fresh session: the clip is stored under the name
  \<open>Key.space_20260102_030405_000067.wav\<close>, which is not a single printable character or
  one of \<open>space\<close>, \<open>enter\<close>, \<open>backspace\<close> followed by an underscore.
\<close>

theorem space_label_counterexample:
  "map row_wav_file (metadata_rows (snd (on_press exact fresh_session key_space clock0 IoOk))) =
     [py ''Key.space_20260102_030405_000067.wav''] \<and>
   files (snd (on_press exact fresh_session key_space clock0 IoOk))
     (py ''recordings/Key.space_20260102_030405_000067.wav'') =
     Some (Wav 1 2 44100 (replicate 8820 0)) \<and>
   \<not> spec_file_name exact (py ''Key.space_20260102_030405_000067.wav'')"
  by (simp add: space_press spec_name_fails)

theorem clip_file_name_witness:
  "files (snd (on_press exact fresh_session key_space clock0 IoOk))
     (py ''recordings/Key.space_20260102_030405_000067.wav'') \<noteq>
   files fresh_session (py ''recordings/Key.space_20260102_030405_000067.wav'') \<and>
   (\<exists>label. press_label key_space = Inr label \<and> code_label exact label \<and>
      py ''recordings/Key.space_20260102_030405_000067.wav'' =
        os_path_join (output_dir fresh_session)
          (label @ py ''_'' @ strftime clock0 @ py ''.wav'')) \<and>
   valid_datetime clock0"
proof -
  have ch: "files (snd (on_press exact fresh_session key_space clock0 IoOk))
     (py ''recordings/Key.space_20260102_030405_000067.wav'') \<noteq>
   files fresh_session (py ''recordings/Key.space_20260102_030405_000067.wav'')"
    by (simp add: space_press fresh_session_simps)
  from clip_file_name [of exact fresh_session key_space clock0 IoOk,
      THEN conjunct1, rule_format, OF ch] ch valid_clock0
  show ?thesis by blast
qed

section \<open>A session without an input device\<close>

lemma select_none: "no_input_device devices \<Longrightarrow> select_input_device devices = None"
proof (cases devices)
  case (Inl e)
  then show ?thesis by (simp add: select_input_device_def)
next
  case (Inr ds)
  assume "no_input_device devices"
  with Inr have "\<forall>n \<in> set ds. n \<le> 0" by (simp add: no_input_device_def list_all_iff)
  then have "filter (\<lambda>i. ds ! i > 0) [0 ..< length ds] = []"
    by (auto simp: filter_empty_conv) (metis not_le nth_mem)
  with Inr show ?thesis by (simp add: select_input_device_def)
qed

text \<open>
  C7, as amended. When no input-capable device is available, the audio thread of a
  started session sets the status text to \<open>Audio error: No valid input device found\<close> and
  returns; the session stays in the recording state with the buffer of zeros, and every
  accepted key press whose files are written without failure still produces a clip
  file, of 8820 zero samples, and a metadata row.
\<close>

theorem no_device_session:
  assumes "no_input_device devices" and "0 < d"
  shows "status_label (record_audio (start_recording (init_app devices disk rows) (Some d)) e) =
           py ''Audio error: No valid input device found'' \<and>
         is_recording (record_audio (start_recording (init_app devices disk rows) (Some d)) e) \<and>
         audio_buffer (record_audio (start_recording (init_app devices disk rows) (Some d)) e) =
           np_zeros 88200 \<and>
         (\<forall>key label now. press_label key = Inr label \<and> accepted p label \<longrightarrow>
            files (snd (on_press p
                (record_audio (start_recording (init_app devices disk rows) (Some d)) e)
                key now IoOk))
              (os_path_join (py ''recordings'') (wav_name label (strftime now))) =
              Some (Wav 1 2 44100 (replicate 8820 0)) \<and>
            metadata_rows (snd (on_press p
                (record_audio (start_recording (init_app devices disk rows) (Some d)) e)
                key now IoOk)) =
              rows @ [\<lparr>row_timestamp = strftime now, row_key = label,
                       row_wav_file = wav_name label (strftime now)\<rparr>])"
proof -
  let ?s = "record_audio (start_recording (init_app devices disk rows) (Some d)) e"
  have dev: "select_input_device devices = None" using assms(1) by (rule select_none)
  have st: "status_label ?s = py ''Audio error: No valid input device found''"
    and rec: "is_recording ?s" and buf: "audio_buffer ?s = np_zeros 88200"
    and seg: "segment_samples ?s = 8820" and out: "output_dir ?s = py ''recordings''"
    and fsv: "fs ?s = 44100" and fl: "files ?s = disk" and rw: "metadata_rows ?s = rows"
    using assms(2) dev by (simp_all add: record_audio_def start_recording_def init_app_def)
  have norm: "normalize_int16 p (slice_last (audio_buffer ?s) (segment_samples ?s)) =
             Inr (replicate 8820 0)"
    unfolding buf seg by (simp add: slice_last_def np_zeros_def normalize_zeros)
  have press: "files (snd (on_press p ?s key now IoOk))
              (os_path_join (py ''recordings'') (wav_name label (strftime now))) =
              Some (Wav 1 2 44100 (replicate 8820 0)) \<and>
            metadata_rows (snd (on_press p ?s key now IoOk)) =
              rows @ [\<lparr>row_timestamp = strftime now, row_key = label,
                       row_wav_file = wav_name label (strftime now)\<rparr>]"
    if "press_label key = Inr label" "accepted p label" for key label now
    unfolding press_saved [OF rec that norm]
    by (simp add: clip_path_def out fsv rw)
  show ?thesis
    using press rec st buf by blast
qed

theorem no_device_session_witness:
  "no_input_device (Inr [0, 0]) \<and> (0 :: int) < 60 \<and>
   status_label (record_audio (start_recording (init_app (Inr [0, 0]) Map.empty []) (Some 60)) None) =
     py ''Audio error: No valid input device found'' \<and>
   is_recording (record_audio (start_recording (init_app (Inr [0, 0]) Map.empty []) (Some 60)) None)"
  using no_device_session [of "Inr [0, 0]" 60 Map.empty "[]" None]
  by (simp add: no_input_device_def)

lemma silent_session:
  "run exact silent_app [Start (Some 60), AudioThread None] =
     record_audio (start_recording (init_app (Inr [0, 0]) Map.empty []) (Some 60)) None"
  by (simp add: run_def silent_app_def)

lemma silent_no_device: "no_input_device (Inr [0, 0])"
  by (simp add: no_input_device_def)

text \<open>
  Without an input device, a session reports the audio error and a press of the key
  \<open>a\<close> still produces the clip file \<open>recordings/a_20260102_030405_000067.wav\<close>.
\<close>

theorem clip_without_device_counterexample:
  "input_device silent_app = None \<and>
   files silent_app = Map.empty \<and>
   status_label (run exact silent_app [Start (Some 60), AudioThread None]) =
     py ''Audio error: No valid input device found'' \<and>
   files (run exact silent_app [Start (Some 60), AudioThread None, Press key_a clock0 IoOk])
     (py ''recordings/a_20260102_030405_000067.wav'') =
     Some (Wav 1 2 44100 (replicate 8820 0))"
proof -
  let ?s = "record_audio (start_recording (init_app (Inr [0, 0]) Map.empty []) (Some 60)) None"
  have dev: "input_device silent_app = None"
    by (simp add: silent_app_def init_app_def select_none [OF silent_no_device])
  have st: "status_label ?s = py ''Audio error: No valid input device found''"
    and rec: "is_recording ?s"
    and seg: "normalize_int16 exact (slice_last (audio_buffer ?s) (segment_samples ?s)) =
               Inr (replicate 8820 0)"
    and out: "output_dir ?s = py ''recordings''" and fs: "fs ?s = 44100"
    by (simp_all add: record_audio_def start_recording_def init_app_def
          select_none [OF silent_no_device] slice_last_def np_zeros_def normalize_zeros)
  have three: "run exact silent_app [Start (Some 60), AudioThread None, Press key_a clock0 IoOk] =
        snd (on_press exact ?s key_a clock0 IoOk)"
    by (simp add: run_def silent_app_def)
  have "files (snd (on_press exact ?s key_a clock0 IoOk))
          (py ''recordings/a_20260102_030405_000067.wav'') =
        Some (Wav 1 2 44100 (replicate 8820 0))"
    unfolding press_saved [OF rec label_a accepted_a seg]
    by (simp add: clip_path_def out fs strftime_clock0 name_a join_recordings)
  then show ?thesis
    unfolding three silent_session using dev st by (simp add: silent_app_def init_app_def)
qed

section \<open>Failed saves\<close>

lemma save_write_fails:
  "normalize_int16 p (slice_last (audio_buffer s) (segment_samples s)) = Inr clip \<Longrightarrow>
   save_key_audio p s label now (WaveWriteFails e) =
     save_error (s\<lparr>files := (files s)(clip_path s label now \<mapsto> Incomplete)\<rparr>) e"
  by (simp add: save_key_audio_def clip_path_def Let_def)

lemma save_csv_fails:
  "normalize_int16 p (slice_last (audio_buffer s) (segment_samples s)) = Inr clip \<Longrightarrow>
   save_key_audio p s label now (CsvAppendFails e) =
     save_error (s\<lparr>files := (files s)(clip_path s label now \<mapsto> Wav 1 2 (fs s) clip)\<rparr>) e"
  by (simp add: save_key_audio_def clip_path_def Let_def)

lemma save_status:
  "fault \<noteq> IoOk \<Longrightarrow>
   \<exists>e. status_label (save_key_audio p s label now fault) = py ''Save error: '' @ exc_str e"
  by (cases fault)
     (auto simp: save_key_audio_def save_error_def Let_def split: sum.splits)

lemma save_rows_failed:
  "fault \<noteq> IoOk \<Longrightarrow> metadata_rows (save_key_audio p s label now fault) = metadata_rows s"
  using save_rows [of p s label now fault] by auto

text \<open>
  C8, as amended. When the file system fails during \<open>save_key_audio\<close>, the status text
  becomes \<open>Save error:\<close> followed by the exception's text, no metadata row is added or
  changed, the recording flag and the audio buffer are as before, and every file stored
  under another path than the event's own is as before. Nothing is said of the file at
  the event's own path.
\<close>

theorem save_failure_is_local:
  assumes "fault \<noteq> IoOk"
  shows "(\<exists>e. status_label (save_key_audio p s label now fault) =
               py ''Save error: '' @ exc_str e) \<and>
         is_recording (save_key_audio p s label now fault) = is_recording s \<and>
         audio_buffer (save_key_audio p s label now fault) = audio_buffer s \<and>
         metadata_rows (save_key_audio p s label now fault) = metadata_rows s \<and>
         (\<forall>q. q \<noteq> os_path_join (output_dir s) (wav_name label (strftime now)) \<longrightarrow>
              files (save_key_audio p s label now fault) q = files s q)"
  using save_status [OF assms] save_rows_failed [OF assms] save_keeps(1,2)
    save_files_elsewhere [of _ s label now p fault]
  by (simp add: clip_path_def)

theorem save_failure_is_local_witness:
  "CsvAppendFails csv_locked \<noteq> IoOk \<and>
   is_recording (save_key_audio exact fresh_session (py ''a'') clock0 (CsvAppendFails csv_locked)) \<and>
   metadata_rows (save_key_audio exact fresh_session (py ''a'') clock0 (CsvAppendFails csv_locked)) = []"
  using save_failure_is_local [of "CsvAppendFails csv_locked" exact fresh_session "py ''a''" clock0]
  by (simp add: fresh_session_simps)

lemma a_press:
  "snd (on_press exact fresh_session key_a clock0 IoOk) =
     fresh_session\<lparr>files :=
         [py ''recordings/a_20260102_030405_000067.wav'' \<mapsto> Wav 1 2 44100 (replicate 8820 0)],
       metadata_rows :=
         [\<lparr>row_timestamp = py ''20260102_030405_000067'', row_key = py ''a'',
           row_wav_file = py ''a_20260102_030405_000067.wav''\<rparr>]\<rparr>"
  using press_saved [OF fresh_session_simps(1) label_a accepted_a fresh_segment,
      of exact clock0]
  by (simp add: clip_path_def name_a join_recordings fresh_session_simps strftime_clock0)

lemma a_path:
  "output_dir s = py ''recordings'' \<Longrightarrow>
   clip_path s (py ''a'') clock0 = py ''recordings/a_20260102_030405_000067.wav''"
  by (simp add: clip_path_def strftime_clock0 name_a join_recordings)

text \<open>
  Two presses of \<open>a\<close> that read the same clock value, the second with a failing write:
  the clip written by the first is left incomplete. And a press whose metadata row
  cannot be appended leaves its clip file behind, with no row.
\<close>

theorem failed_save_counterexample:
  "files (run exact fresh_session [Press key_a clock0 IoOk])
     (py ''recordings/a_20260102_030405_000067.wav'') =
     Some (Wav 1 2 44100 (replicate 8820 0)) \<and>
   files (run exact fresh_session
            [Press key_a clock0 IoOk, Press key_a clock0 (WaveWriteFails disk_full)])
     (py ''recordings/a_20260102_030405_000067.wav'') = Some Incomplete \<and>
   files (run exact fresh_session [Press key_a clock0 (CsvAppendFails csv_locked)])
     (py ''recordings/a_20260102_030405_000067.wav'') =
     Some (Wav 1 2 44100 (replicate 8820 0)) \<and>
   metadata_rows (run exact fresh_session [Press key_a clock0 (CsvAppendFails csv_locked)]) = []"
proof -
  let ?s1 = "snd (on_press exact fresh_session key_a clock0 IoOk)"
  have rec1: "is_recording ?s1" and out1: "output_dir ?s1 = py ''recordings''"
    and seg1: "normalize_int16 exact (slice_last (audio_buffer ?s1) (segment_samples ?s1)) =
               Inr (replicate 8820 0)"
    unfolding a_press using fresh_segment [of exact] by (simp_all add: fresh_session_simps)
  have one: "files ?s1 (py ''recordings/a_20260102_030405_000067.wav'') =
             Some (Wav 1 2 44100 (replicate 8820 0))"
    unfolding a_press by simp
  have "snd (on_press exact ?s1 key_a clock0 (WaveWriteFails disk_full)) =
        save_key_audio exact ?s1 (py ''a'') clock0 (WaveWriteFails disk_full)"
    by (rule on_press_accepted [OF rec1 label_a accepted_a])
  then have two: "files (snd (on_press exact ?s1 key_a clock0 (WaveWriteFails disk_full)))
             (py ''recordings/a_20260102_030405_000067.wav'') = Some Incomplete"
    by (simp add: save_write_fails [OF seg1] a_path [OF out1] save_error_def)
  have "snd (on_press exact fresh_session key_a clock0 (CsvAppendFails csv_locked)) =
        save_key_audio exact fresh_session (py ''a'') clock0 (CsvAppendFails csv_locked)"
    by (rule on_press_accepted [OF fresh_session_simps(1) label_a accepted_a])
  then have three: "files (snd (on_press exact fresh_session key_a clock0 (CsvAppendFails csv_locked)))
             (py ''recordings/a_20260102_030405_000067.wav'') =
             Some (Wav 1 2 44100 (replicate 8820 0))"
    and four: "metadata_rows
         (snd (on_press exact fresh_session key_a clock0 (CsvAppendFails csv_locked))) = []"
    by (simp_all add: save_csv_fails [OF fresh_segment] a_path [OF fresh_session_simps(5)]
          save_error_def fresh_session_simps)
  show ?thesis
    using one two three four by (simp add: run_def)
qed

section \<open>The metadata log and the clip files\<close>

lemma wav_name_inj:
  assumes "valid_datetime t" and "valid_datetime u"
    and "wav_name l (strftime t) = wav_name m (strftime u)"
  shows "l = m \<and> t = u"
proof -
  have "length (py ''_'' @ strftime t @ py ''.wav'') = length (py ''_'' @ strftime u @ py ''.wav'')"
    using assms(1,2) by (simp add: strftime_length)
  moreover have "l @ (py ''_'' @ strftime t @ py ''.wav'') = m @ (py ''_'' @ strftime u @ py ''.wav'')"
    using assms(3) unfolding wav_name_def .
  ultimately have "l = m \<and> py ''_'' @ strftime t @ py ''.wav'' = py ''_'' @ strftime u @ py ''.wav''"
    using append_eq_append_conv
      [of l m "py ''_'' @ strftime t @ py ''.wav''" "py ''_'' @ strftime u @ py ''.wav''"]
    by blast
  then show ?thesis using strftime_inj [OF assms(1,2)] by simp
qed

lemma step_effect:
  "output_dir (step p s e) = output_dir s \<and>
   (\<forall>q. files s q \<noteq> None \<longrightarrow> files (step p s e) q \<noteq> None) \<and>
   (metadata_rows (step p s e) = metadata_rows s \<or>
    (\<exists>k now fault l. e = Press k now fault \<and> press_label k = Inr l \<and>
       metadata_rows (step p s e) = metadata_rows s @
         [\<lparr>row_timestamp = strftime now, row_key = l,
           row_wav_file = wav_name l (strftime now)\<rparr>] \<and>
       files (step p s e) (os_path_join (output_dir s) (wav_name l (strftime now))) \<noteq> None))"
proof (cases e)
  case (Press k now fault)
  show ?thesis
  proof (cases "is_recording s \<and> (\<exists>l. press_label k = Inr l \<and> accepted p l)")
    case True
    then obtain l where rec: "is_recording s" and l: "press_label k = Inr l"
      and acc: "accepted p l" by blast
    have eq: "step p s e = save_key_audio p s l now fault"
      using Press on_press_accepted [OF rec l acc] by simp
    show ?thesis
      unfolding eq
      using save_keeps(3) [of p s l now fault] save_files_grow [of s _ p l now fault]
        save_rows [of p s l now fault] Press l
      by (auto simp: clip_path_def)
  next
    case False
    then have "step p s e = s"
      using Press by (cases "press_label k") (auto simp: on_press_def)
    then show ?thesis by simp
  qed
qed (auto simp: start_recording_def record_audio_def callback_def countdown_timer_def
       stop_recording_def Let_def split: option.splits sum.splits)

lemma names_unused_iff:
  "names_unused s es =
     (\<forall>r \<in> set (metadata_rows s). \<forall>l now. (Inr l, now) \<in> set (press_stamps es) \<longrightarrow>
        row_wav_file r \<noteq> wav_name l (strftime now))"
  unfolding names_unused_def list_all_iff
  by (auto split: sum.splits) fastforce

lemma log_consistent_iff:
  "log_consistent s =
     ((\<forall>r \<in> set (metadata_rows s).
         files s (os_path_join (output_dir s) (row_wav_file r)) \<noteq> None) \<and>
      distinct (map row_wav_file (metadata_rows s)))"
  by (simp add: log_consistent_def list_all_iff)

lemma press_stamps_Cons:
  "press_stamps (e # es) =
     (case e of Press k now fault \<Rightarrow> [(press_label k, now)] | _ \<Rightarrow> []) @ press_stamps es"
  by (cases e) simp_all

lemma press_stamps_append: "press_stamps (es @ es') = press_stamps es @ press_stamps es'"
  by (induction es) (simp_all add: press_stamps_Cons)

lemma step_consistent:
  assumes inv: "log_consistent s"
    and dist: "distinct (press_stamps (e # es))"
    and valid: "\<forall>(lab, now) \<in> set (press_stamps (e # es)). valid_datetime now"
    and unused: "names_unused s (e # es)"
  shows "log_consistent (step p s e) \<and> names_unused (step p s e) es"
proof -
  let ?s = "step p s e"
  from step_effect [of p s e]
  have out: "output_dir ?s = output_dir s"
    and grow: "\<And>q. files s q \<noteq> None \<Longrightarrow> files ?s q \<noteq> None"
    and rows: "metadata_rows ?s = metadata_rows s \<or>
      (\<exists>k now fault l. e = Press k now fault \<and> press_label k = Inr l \<and>
         metadata_rows ?s = metadata_rows s @
           [\<lparr>row_timestamp = strftime now, row_key = l,
             row_wav_file = wav_name l (strftime now)\<rparr>] \<and>
         files ?s (os_path_join (output_dir s) (wav_name l (strftime now))) \<noteq> None)"
    by blast+
  have sub: "set (press_stamps es) \<subseteq> set (press_stamps (e # es))"
    by (auto simp: press_stamps_Cons)
  have old: "\<forall>r \<in> set (metadata_rows s). \<forall>l now. (Inr l, now) \<in> set (press_stamps es) \<longrightarrow>
        row_wav_file r \<noteq> wav_name l (strftime now)"
    using unused sub unfolding names_unused_iff by blast
  from rows show ?thesis
  proof
    assume same: "metadata_rows ?s = metadata_rows s"
    have "log_consistent ?s"
      using inv grow unfolding log_consistent_iff same out by blast
    moreover have "names_unused ?s es"
      using old unfolding names_unused_iff same .
    ultimately show ?thesis ..
  next
    assume "\<exists>k now fault l. e = Press k now fault \<and> press_label k = Inr l \<and>
         metadata_rows ?s = metadata_rows s @
           [\<lparr>row_timestamp = strftime now, row_key = l,
             row_wav_file = wav_name l (strftime now)\<rparr>] \<and>
         files ?s (os_path_join (output_dir s) (wav_name l (strftime now))) \<noteq> None"
    then obtain k now fault l where e: "e = Press k now fault" and l: "press_label k = Inr l"
      and app: "metadata_rows ?s = metadata_rows s @
           [\<lparr>row_timestamp = strftime now, row_key = l,
             row_wav_file = wav_name l (strftime now)\<rparr>]"
      and written: "files ?s (os_path_join (output_dir s) (wav_name l (strftime now))) \<noteq> None"
      by blast
    have stamps: "press_stamps (e # es) = (Inr l, now) # press_stamps es"
      using e l by simp
    have new: "\<forall>r \<in> set (metadata_rows s). row_wav_file r \<noteq> wav_name l (strftime now)"
      using unused unfolding names_unused_iff stamps by simp
    have notin: "(Inr l, now) \<notin> set (press_stamps es)"
      using dist unfolding stamps by simp
    have vnow: "valid_datetime now" using valid unfolding stamps by simp
    have later: "wav_name l (strftime now) \<noteq> wav_name m (strftime u)"
      if "(Inr m, u) \<in> set (press_stamps es)" for m u
    proof
      assume eq: "wav_name l (strftime now) = wav_name m (strftime u)"
      have "valid_datetime u" using valid that unfolding stamps by auto
      from wav_name_inj [OF vnow this eq] that notin show False by simp
    qed
    have "log_consistent ?s"
      using inv grow written new unfolding log_consistent_iff app out by auto
    moreover have "names_unused ?s es"
      using old later unfolding names_unused_iff app by auto
    ultimately show ?thesis ..
  qed
qed

lemma run_consistent:
  "log_consistent s \<Longrightarrow> distinct (press_stamps es) \<Longrightarrow>
   \<forall>(lab, now) \<in> set (press_stamps es). valid_datetime now \<Longrightarrow>
   names_unused s es \<Longrightarrow> log_consistent (run p s es)"
proof (induction es arbitrary: s)
  case Nil
  then show ?case by (simp add: run_def)
next
  case (Cons e es)
  from step_consistent [OF Cons.prems]
  have inv: "log_consistent (step p s e)" and unused: "names_unused (step p s e) es"
    by blast+
  have dist: "distinct (press_stamps es)"
    using Cons.prems(2) by (simp add: press_stamps_Cons)
  have valid: "\<forall>(lab, now) \<in> set (press_stamps es). valid_datetime now"
    using Cons.prems(3) by (auto simp: press_stamps_Cons)
  from Cons.IH [OF inv dist valid unused] show ?case by (simp add: run_def)
qed

text \<open>
  C9, as amended. From a state whose log is consistent, in a session whose key presses
  read valid clock values, no two of them with the same label and the same clock value,
  and whose names are not already in the log: at every point of the session the file
  named by every metadata row exists, and no two rows name the same file.
\<close>

theorem log_stays_consistent:
  assumes "log_consistent s"
    and "distinct (press_stamps es)"
    and "\<forall>(lab, now) \<in> set (press_stamps es). valid_datetime now"
    and "names_unused s es"
  shows "\<forall>n. log_consistent (run p s (take n es))"
proof
  fix n
  have split: "press_stamps es = press_stamps (take n es) @ press_stamps (drop n es)"
    using press_stamps_append [of "take n es" "drop n es"] by simp
  have d: "distinct (press_stamps (take n es))"
    using assms(2) unfolding split by simp
  have v: "\<forall>(lab, now) \<in> set (press_stamps (take n es)). valid_datetime now"
    using assms(3) unfolding split by auto
  have u: "names_unused s (take n es)"
    using assms(4) unfolding names_unused_iff split by auto
  show "log_consistent (run p s (take n es))"
    by (rule run_consistent [OF assms(1) d v u])
qed

theorem log_stays_consistent_witness:
  "log_consistent fresh_session \<and>
   distinct (press_stamps [Press key_a clock0 IoOk, Block [Finite 1], Press key_a clock1 IoOk]) \<and>
   valid_datetime clock0 \<and> valid_datetime clock1 \<and>
   names_unused fresh_session [Press key_a clock0 IoOk, Block [Finite 1], Press key_a clock1 IoOk] \<and>
   log_consistent
     (run exact fresh_session [Press key_a clock0 IoOk, Block [Finite 1], Press key_a clock1 IoOk])"
proof -
  let ?es = "[Press key_a clock0 IoOk, Block [Finite 1], Press key_a clock1 IoOk]"
  have inv: "log_consistent fresh_session"
    by (simp add: log_consistent_def fresh_session_simps)
  have ne: "clock0 \<noteq> clock1" by (simp add: clock0_def clock1_def)
  have d: "distinct (press_stamps ?es)" using ne by simp
  have v: "\<forall>(lab, now) \<in> set (press_stamps ?es). valid_datetime now"
    by (simp add: valid_clock0) (simp add: valid_datetime_def clock1_def)
  have u: "names_unused fresh_session ?es"
    by (simp add: names_unused_def fresh_session_simps)
  have v1: "valid_datetime clock1" by (simp add: valid_datetime_def clock1_def)
  from log_stays_consistent [OF inv d v u, of exact, THEN spec, of 3] inv d u valid_clock0 v1
  show ?thesis by simp
qed

text \<open>
  Two presses of \<open>a\<close> that read the same clock value give two metadata rows that name
  the same file. And a session that starts on a log naming a missing clip is
  inconsistent from its first moment.
\<close>

theorem same_stamp_counterexample:
  "map row_wav_file
     (metadata_rows (run exact fresh_session [Press key_a clock0 IoOk, Press key_a clock0 IoOk])) =
     [py ''a_20260102_030405_000067.wav'', py ''a_20260102_030405_000067.wav''] \<and>
   \<not> log_consistent (run exact fresh_session [Press key_a clock0 IoOk, Press key_a clock0 IoOk]) \<and>
   \<not> log_consistent stale_session"
proof -
  let ?s1 = "snd (on_press exact fresh_session key_a clock0 IoOk)"
  have rec1: "is_recording ?s1"
    and seg1: "normalize_int16 exact (slice_last (audio_buffer ?s1) (segment_samples ?s1)) =
               Inr (replicate 8820 0)"
    unfolding a_press using fresh_segment [of exact] by (simp_all add: fresh_session_simps)
  have rows1: "map row_wav_file (metadata_rows ?s1) = [py ''a_20260102_030405_000067.wav'']"
    unfolding a_press by simp
  have "map row_wav_file (metadata_rows (snd (on_press exact ?s1 key_a clock0 IoOk))) =
        [py ''a_20260102_030405_000067.wav'', py ''a_20260102_030405_000067.wav'']"
    unfolding press_saved [OF rec1 label_a accepted_a seg1]
    using rows1 by (simp add: strftime_clock0 name_a)
  moreover have "\<not> log_consistent stale_session"
    by (simp add: log_consistent_def stale_session_def start_recording_def init_app_def)
  ultimately show ?thesis
    by (simp add: run_def log_consistent_def)
qed

end
